theory Spec2Isabelle
  imports Complex_Main
begin

section \<open>Serial monitor: text primitives\<close>

text \<open>
  The model follows \<^verbatim>\<open>src/python/serial_monitor.py\<close>. A Python \<^verbatim>\<open>str\<close> is a
  \<^typ>\<open>string\<close>; each \<^typ>\<open>char\<close> stands for the code point of the same number
  (0 to 255). Over that range the characters for which \<^verbatim>\<open>str.isspace\<close> holds, which
  are the ones that \<^verbatim>\<open>\s\<close> matches and that \<^verbatim>\<open>strip()\<close> and \<^verbatim>\<open>split()\<close> remove,
  are the twelve listed in \<open>is_space\<close>, and the decimal digits that \<^verbatim>\<open>\d\<close> and
  \<^verbatim>\<open>int()\<close> accept are \<^verbatim>\<open>0\<close> to \<^verbatim>\<open>9\<close>.
\<close>

definition is_space :: "char \<Rightarrow> bool" where
  "is_space c \<longleftrightarrow> c \<in> set [CHR 0x09, CHR 0x0A, CHR 0x0B, CHR 0x0C, CHR 0x0D,
     CHR 0x1C, CHR 0x1D, CHR 0x1E, CHR 0x1F, CHR 0x20, CHR 0x85, CHR 0xA0]"

definition is_digit :: "char \<Rightarrow> bool" where
  "is_digit c \<longleftrightarrow> c \<in> set ''0123456789''"

text \<open>\<^verbatim>\<open>str.strip()\<close> with no argument.\<close>

definition strip :: "string \<Rightarrow> string" where
  "strip s = rev (dropWhile is_space (rev (dropWhile is_space s)))"

text \<open>
  The value of a string of decimal digits, as \<^verbatim>\<open>int()\<close> reads it. The
  interpreter's configurable limit on the number of digits that \<^verbatim>\<open>int()\<close> accepts
  is not part of the model.
\<close>

definition digit_val :: "char \<Rightarrow> nat" where
  "digit_val c = of_char c - 48"

definition dec_value :: "string \<Rightarrow> nat" where
  "dec_value ds = foldl (\<lambda>a c. 10 * a + digit_val c) 0 ds"

text \<open>
  \<^verbatim>\<open>int(text)\<close> on a string, base ten: surrounding whitespace is dropped, one sign is
  allowed, and the digits may be grouped by single underscores. \<open>None\<close> is the
  \<^verbatim>\<open>ValueError\<close>.
\<close>

fun int_body :: "string \<Rightarrow> bool" where
  "int_body [] = False"
| "int_body [c] = is_digit c"
| "int_body (c # d # cs) =
     (is_digit c \<and> (if d = CHR ''_'' then int_body cs else int_body (d # cs)))"

definition int_unsigned :: "string \<Rightarrow> int option" where
  "int_unsigned b =
     (if int_body b then Some (int (dec_value (filter (\<lambda>c. c \<noteq> CHR ''_'') b))) else None)"

definition py_int :: "string \<Rightarrow> int option" where
  "py_int text =
     (case strip text of
        [] \<Rightarrow> None
      | c # cs \<Rightarrow>
          if c = CHR ''-'' then map_option uminus (int_unsigned cs)
          else if c = CHR ''+'' then int_unsigned cs
          else int_unsigned (c # cs))"

text \<open>
  \<^verbatim>\<open>str.split(maxsplit=n)\<close> with no separator: runs of whitespace separate the
  fields, at most \<open>n\<close> splits are made, and what is left after the last split is one
  more field, taken from its first character that is not whitespace to the end of the
  string.
\<close>

fun split_ws :: "nat \<Rightarrow> string \<Rightarrow> string list" where
  "split_ws 0 s =
     (let r = dropWhile is_space s in if r = [] then [] else [r])"
| "split_ws (Suc n) s =
     (let r = dropWhile is_space s in
      if r = [] then []
      else takeWhile (\<lambda>c. \<not> is_space c) r # split_ws n (dropWhile (\<lambda>c. \<not> is_space c) r))"

text \<open>\<^verbatim>\<open>int(x)\<close> on a float truncates towards zero; wall-clock readings are reals.\<close>

definition int_of_float :: "real \<Rightarrow> int" where
  "int_of_float x = (if 0 \<le> x then \<lfloor>x\<rfloor> else \<lceil>x\<rceil>)"

section \<open>The two line patterns\<close>

text \<open>
  Both patterns of the logger are sequences of three kinds of items: a literal text,
  \<^verbatim>\<open>\s*\<close>, and the capturing group \<^verbatim>\<open>(\d+)\<close>. \<open>rx_from\<close> matches such a
  sequence at the start of a string the way the \<^verbatim>\<open>re\<close> module does: the two
  repetitions are greedy and give characters back one at a time when the rest of the
  pattern fails. It returns the captured groups. \<open>rx_search\<close> is \<^verbatim>\<open>pattern.search\<close>:
  the match at the leftmost position that has one.
\<close>

datatype rx = Lit string | Spaces | Digits

function rx_from :: "rx list \<Rightarrow> string \<Rightarrow> string list option"
  and try_spaces :: "rx list \<Rightarrow> string \<Rightarrow> nat \<Rightarrow> string list option"
  and try_digits :: "rx list \<Rightarrow> string \<Rightarrow> nat \<Rightarrow> string list option"
where
  "rx_from [] s = Some []"
| "rx_from (Lit l # r) s =
     (if take (length l) s = l then rx_from r (drop (length l) s) else None)"
| "rx_from (Spaces # r) s = try_spaces r s (length (takeWhile is_space s))"
| "rx_from (Digits # r) s = try_digits r s (length (takeWhile is_digit s))"
| "try_spaces r s 0 = rx_from r s"
| "try_spaces r s (Suc k) =
     (case rx_from r (drop (Suc k) s) of
        Some g \<Rightarrow> Some g
      | None \<Rightarrow> try_spaces r s k)"
| "try_digits r s 0 = None"
| "try_digits r s (Suc k) =
     (case rx_from r (drop (Suc k) s) of
        Some g \<Rightarrow> Some (take (Suc k) s # g)
      | None \<Rightarrow> try_digits r s k)"
  by pat_completeness auto
termination
  by (relation "inv_image (less_than <*lex*> less_than)
        (\<lambda>x. case x of
           Inl (r, s) \<Rightarrow> (length r, 0)
         | Inr (Inl (r, s, k)) \<Rightarrow> (length r, Suc k)
         | Inr (Inr (r, s, k)) \<Rightarrow> (length r, Suc k))") auto

fun rx_search :: "rx list \<Rightarrow> string \<Rightarrow> string list option" where
  "rx_search r [] = rx_from r []"
| "rx_search r (c # cs) =
     (case rx_from r (c # cs) of
        Some g \<Rightarrow> Some g
      | None \<Rightarrow> rx_search r cs)"

text \<open>
  \<^verbatim>\<open>TIMESTAMP_MS:\s*(\d+)\s*\|\s*HR:\s*(\d+)\s*\|\s*SpO2:\s*(\d+)\<close>
\<close>

definition combined_pattern :: "rx list" where
  "combined_pattern =
     [Lit ''TIMESTAMP_MS:'', Spaces, Digits, Spaces, Lit ''|'', Spaces,
      Lit ''HR:'', Spaces, Digits, Spaces, Lit ''|'', Spaces,
      Lit ''SpO2:'', Spaces, Digits]"

text \<open>\<^verbatim>\<open>Connection timestamp set at millis:\s*(\d+)\<close>\<close>

definition connection_pattern :: "rx list" where
  "connection_pattern = [Lit ''Connection timestamp set at millis:'', Spaces, Digits]"

section \<open>Logger state\<close>

text \<open>
  A CSV field is what \<^verbatim>\<open>writerow\<close> is given: a string or an integer. A file is the
  list of rows written to it so far; a path is its directory and its file name. The
  state holds the attributes of \<^verbatim>\<open>SerialDataLogger\<close> that the operations read or
  write (\<open>csv_file\<close> stands for the file and its writer, which are set together), the
  files on disk, the lines printed and the \<^verbatim>\<open>time.sleep\<close> calls made, in order.
\<close>

datatype cell = Text string | Number int

type_synonym row = "cell list"

type_synonym path = "string \<times> string"

datatype error = AttributeError | IndexError | SerialException | KeyboardInterrupt

datatype timestamp_str = Ms cell | Zero_not_synced

datatype message =
    Opening_serial
  | Connected
  | Sync_initialized
  | Serial_open_failed
  | Created_csv path
  | Appending_csv path
  | Created_manual_csv path
  | Appending_manual_csv path
  | Csv_open_failed
  | Connection_detected
  | Saved int int int
  | Manual_not_enabled
  | Not_yet_detected
  | Manual_saved timestamp_str int string
  | Manual_banner
  | Stopping
  | Invalid_input
  | Serial_echo string
  | Serial_error error

record logger =
  output_file :: path
  enable_manual_input :: bool
  serial_conn :: bool
  csv_file :: "path option"
  manual_csv_file :: "path option"
  connection_start_time :: "real option"
  running :: bool
  files :: "path \<rightharpoonup> row list"
  console :: "message list"
  sleeps :: "real list"

definition init :: "path \<Rightarrow> bool \<Rightarrow> (path \<rightharpoonup> row list) \<Rightarrow> logger" where
  "init out manual disk =
     \<lparr>output_file = out, enable_manual_input = manual, serial_conn = False,
      csv_file = None, manual_csv_file = None, connection_start_time = None,
      running = True, files = disk, console = [], sleeps = []\<rparr>"

definition print :: "message \<Rightarrow> logger \<Rightarrow> logger" where
  "print m s = s\<lparr>console := console s @ [m]\<rparr>"

definition sleep :: "real \<Rightarrow> logger \<Rightarrow> logger" where
  "sleep d s = s\<lparr>sleeps := sleeps s @ [d]\<rparr>"

text \<open>\<^verbatim>\<open>open(path, 'a')\<close> creates the file when it is missing and keeps its content otherwise.\<close>

definition open_append :: "path \<Rightarrow> logger \<Rightarrow> logger" where
  "open_append p s = (if files s p = None then s\<lparr>files := (files s)(p \<mapsto> [])\<rparr> else s)"

text \<open>\<^verbatim>\<open>writerow\<close> followed by \<^verbatim>\<open>flush\<close>: the row is at the end of the file.\<close>

definition writerow :: "path \<Rightarrow> row \<Rightarrow> logger \<Rightarrow> logger" where
  "writerow p r s =
     s\<lparr>files := (files s)(p \<mapsto> (case files s p of None \<Rightarrow> [] | Some rows \<Rightarrow> rows) @ [r])\<rparr>"

section \<open>Opening the port and the logs\<close>

text \<open>
  \<open>port_opens\<close> says whether \<^verbatim>\<open>serial.Serial(...)\<close> returns (otherwise it raises
  \<^verbatim>\<open>SerialException\<close>); \<open>now\<close> is what \<^verbatim>\<open>time.time()\<close> returns on line 69.
\<close>

definition open_serial :: "logger \<Rightarrow> bool \<Rightarrow> real \<Rightarrow> bool \<times> logger" where
  "open_serial s port_opens now =
     (let s1 = print Opening_serial s in
      if port_opens then
        let s2 = sleep 2 (s1\<lparr>serial_conn := True\<rparr>);
            s3 = print Connected (s2\<lparr>connection_start_time := Some now\<rparr>)
        in (True, if enable_manual_input s3 then print Sync_initialized s3 else s3)
      else (False, print Serial_open_failed s1))"

definition sensor_header :: row where
  "sensor_header = [Text ''System_Timestamp'', Text ''Arduino_Timestamp_ms'',
     Text ''Heart_Rate_BPM'', Text ''SpO2_Percent'']"

definition manual_header :: row where
  "manual_header = [Text ''System_Timestamp'', Text ''Estimated_Arduino_Timestamp_ms'',
     Text ''Heart_Rate_BPM'', Text ''Device'', Text ''Notes'']"

text \<open>\<^verbatim>\<open>output_path.parent / f"manual_{output_path.name}"\<close>\<close>

definition manual_path :: "path \<Rightarrow> path" where
  "manual_path p = (fst p, ''manual_'' @ snd p)"

text \<open>
  \<open>openable\<close> says for which paths \<^verbatim>\<open>mkdir\<close> and \<^verbatim>\<open>open\<close> succeed; where they
  do not, the \<^verbatim>\<open>IOError\<close> is caught and the result is \<open>False\<close>.
\<close>

definition open_csv :: "logger \<Rightarrow> (path \<Rightarrow> bool) \<Rightarrow> bool \<times> logger" where
  "open_csv s openable =
     (let output_path = output_file s;
          file_exists = (files s output_path \<noteq> None)
      in
      if \<not> openable output_path then (False, print Csv_open_failed s)
      else
        let s1 = (open_append output_path s)\<lparr>csv_file := Some output_path\<rparr>;
            s2 = (if \<not> file_exists
                  then print (Created_csv output_path) (writerow output_path sensor_header s1)
                  else print (Appending_csv output_path) s1)
        in
        if enable_manual_input s2 then
          let manual_output_path = manual_path output_path;
              manual_file_exists = (files s2 manual_output_path \<noteq> None)
          in
          if \<not> openable manual_output_path then (False, print Csv_open_failed s2)
          else
            let m1 = (open_append manual_output_path s2)
                       \<lparr>manual_csv_file := Some manual_output_path\<rparr>
            in (True,
                if \<not> manual_file_exists
                then print (Created_manual_csv manual_output_path)
                       (writerow manual_output_path manual_header m1)
                else print (Appending_manual_csv manual_output_path) m1)
        else (True, s2))"

section \<open>Processing one device line\<close>

text \<open>
  \<open>now\<close> is \<^verbatim>\<open>time.time()\<close> on line 143 and \<open>system_time\<close> the formatted
  \<^verbatim>\<open>datetime.now()\<close> of line 154. The result is the exception raised, if any, and
  the state reached. \<^verbatim>\<open>group(i)\<close> is the \<open>i\<close>-th captured text.
\<close>

definition process_line :: "logger \<Rightarrow> real \<Rightarrow> string \<Rightarrow> string \<Rightarrow> error option \<times> logger" where
  "process_line s now system_time line0 =
     (let line = strip line0;
          connection_match = rx_search connection_pattern line;
          s1 = (if connection_match \<noteq> None then
                  let s' = s\<lparr>connection_start_time := Some now\<rparr> in
                  if enable_manual_input s' then print Connection_detected s' else s'
                else s);
          combined_match = rx_search combined_pattern line
      in
      case combined_match of
        None \<Rightarrow> (None, s1)
      | Some g \<Rightarrow>
          let timestamp = int (dec_value (g ! 0));
              hr_value = int (dec_value (g ! 1));
              spo2_value = int (dec_value (g ! 2));
              row = [Text system_time, Number timestamp, Number hr_value, Number spo2_value]
          in
          (case csv_file s1 of
             None \<Rightarrow> (Some AttributeError, s1)
           | Some p \<Rightarrow> (None, print (Saved timestamp hr_value spo2_value) (writerow p row s1))))"

section \<open>Manual readings\<close>

text \<open>
  Lines 176 to 184: the estimated device time. \<open>arduino_timestamp\<close> starts as the
  empty string; both branches assign an integer to it. In the second branch
  \<open>connection_start_time\<close> is \<^verbatim>\<open>None\<close>, so the conditional expression of line 184
  is \<^verbatim>\<open>0\<close>.
\<close>

definition estimate_arduino_timestamp :: "logger \<Rightarrow> real \<Rightarrow> cell \<times> logger" where
  "estimate_arduino_timestamp s now =
     (case connection_start_time s of
        Some t \<Rightarrow> (Number (int_of_float ((now - t) * 1000)), s)
      | None \<Rightarrow> (Number (int_of_float (0 * 1000)), print Not_yet_detected s))"

definition log_manual_heart_rate ::
  "logger \<Rightarrow> real \<Rightarrow> string \<Rightarrow> int \<Rightarrow> string \<Rightarrow> string \<Rightarrow> logger" where
  "log_manual_heart_rate s now system_time hr_value device notes =
     (case manual_csv_file s of
        None \<Rightarrow> print Manual_not_enabled s
      | Some p \<Rightarrow>
          let (arduino_timestamp, s1) = estimate_arduino_timestamp s now;
              row = [Text system_time,
                     if arduino_timestamp \<noteq> Text [] then arduino_timestamp else Number 0,
                     Number hr_value, Text device, Text notes];
              s2 = writerow p row s1;
              timestamp_str =
                (if arduino_timestamp \<noteq> Text [] then Ms arduino_timestamp else Zero_not_synced)
          in print (Manual_saved timestamp_str hr_value device) s2)"

text \<open>
  One pass through the body of the loop of \<^verbatim>\<open>manual_input_loop\<close>. The operator
  either enters a line or interrupts the prompt. \<^verbatim>\<open>parts[0]\<close> on an empty list
  would raise \<^verbatim>\<open>IndexError\<close>, which neither handler catches.
\<close>

datatype operator_input = Entered string | Ctrl_C

datatype control = Continue | Break

definition manual_input_step ::
  "logger \<Rightarrow> real \<Rightarrow> string \<Rightarrow> operator_input \<Rightarrow> error + control \<times> logger" where
  "manual_input_step s now system_time inp =
     (case inp of
        Ctrl_C \<Rightarrow> Inr (Break, (print Stopping s)\<lparr>running := False\<rparr>)
      | Entered raw \<Rightarrow>
          let user_input = strip raw in
          if user_input = [] then Inr (Break, (print Stopping s)\<lparr>running := False\<rparr>)
          else
            let parts = split_ws 2 user_input in
            (case parts of
               [] \<Rightarrow> Inl IndexError
             | p0 # _ \<Rightarrow>
                 (case py_int p0 of
                    None \<Rightarrow> Inr (Continue, print Invalid_input s)
                  | Some hr_value \<Rightarrow>
                      let device = (if length parts > 1 then parts ! 1 else ''External'');
                          notes = (if length parts > 2 then parts ! 2 else [])
                      in Inr (Continue,
                           log_manual_heart_rate s now system_time hr_value device notes))))"

text \<open>
  The loop itself, over the operator's inputs in order, each with the clock readings
  taken while it is handled. When the inputs run out the loop is waiting at the prompt.
\<close>

fun manual_input_iter ::
  "logger \<Rightarrow> (real \<times> string \<times> operator_input) list \<Rightarrow> error option \<times> logger" where
  "manual_input_iter s [] = (None, s)"
| "manual_input_iter s ((now, system_time, inp) # rest) =
     (if \<not> running s then (None, s)
      else case manual_input_step s now system_time inp of
             Inl e \<Rightarrow> (Some e, s)
           | Inr (Break, s') \<Rightarrow> (None, s')
           | Inr (Continue, s') \<Rightarrow> manual_input_iter s' rest)"

definition manual_input_loop ::
  "logger \<Rightarrow> (real \<times> string \<times> operator_input) list \<Rightarrow> error option \<times> logger" where
  "manual_input_loop s inputs = manual_input_iter (print Manual_banner s) inputs"

section \<open>The polling loops\<close>

text \<open>
  What one poll of the port finds: no byte waiting, a line (\<^verbatim>\<open>readline()\<close> decoded
  with \<^verbatim>\<open>errors='ignore'\<close>, which never raises; empty after a timeout), or a failure of
  the port. Each poll comes with the clock readings taken while its line is processed.
\<close>

datatype serial_poll = No_bytes | Got_line string | Serial_fault

text \<open>The body of the loop of \<^verbatim>\<open>serial_monitor_loop\<close> (lines 238 to 253).\<close>

definition serial_monitor_step ::
  "logger \<Rightarrow> real \<Rightarrow> string \<Rightarrow> serial_poll \<Rightarrow> control \<times> logger" where
  "serial_monitor_step s now system_time poll =
     (case poll of
        Got_line line \<Rightarrow>
          if line \<noteq> [] then
            (case process_line (print (Serial_echo (strip line)) s) now system_time line of
               (None, s') \<Rightarrow> (Continue, s')
             | (Some e, s') \<Rightarrow> (Break, if running s' then print (Serial_error e) s' else s'))
          else (Continue, s)
      | No_bytes \<Rightarrow> (Continue, sleep (1 / 100) s)
      | Serial_fault \<Rightarrow>
          (Break, if running s then print (Serial_error SerialException) s else s))"

text \<open>
  How a loop is left: its condition became false, an exception left it, or the polls
  given to the model ran out while it was still going round.
\<close>

datatype loop_end = Finished | Raised error | Polling

fun serial_monitor_loop ::
  "logger \<Rightarrow> (real \<times> string \<times> serial_poll) list \<Rightarrow> loop_end \<times> logger" where
  "serial_monitor_loop s [] = (if running s then (Polling, s) else (Finished, s))"
| "serial_monitor_loop s ((now, system_time, poll) # rest) =
     (if \<not> running s then (Finished, s)
      else case serial_monitor_step s now system_time poll of
             (Continue, s') \<Rightarrow> serial_monitor_loop s' rest
           | (Break, s') \<Rightarrow> (Finished, s'))"

text \<open>
  The loop of the simple mode of \<^verbatim>\<open>run\<close> (lines 285 to 296). Here the \<^verbatim>\<open>else\<close>
  with the \<^verbatim>\<open>time.sleep(0.01)\<close> belongs to the \<^verbatim>\<open>while\<close>: it runs once, when the
  condition \<^verbatim>\<open>self.running\<close> is found false. Nothing in the body catches a failure of
  the port or an interrupt from the keyboard; both leave the loop.
\<close>

datatype main_poll = Port serial_poll | Interrupt

fun run_simple_mode ::
  "logger \<Rightarrow> (real \<times> string \<times> main_poll) list \<Rightarrow> loop_end \<times> logger" where
  "run_simple_mode s [] =
     (if running s then (Polling, s) else (Finished, sleep (1 / 100) s))"
| "run_simple_mode s ((now, system_time, poll) # rest) =
     (if \<not> running s then (Finished, sleep (1 / 100) s)
      else case poll of
             Port (Got_line line) \<Rightarrow>
               if line \<noteq> [] then
                 (case process_line (print (Serial_echo (strip line)) s) now system_time line of
                    (None, s') \<Rightarrow> run_simple_mode s' rest
                  | (Some e, s') \<Rightarrow> (Raised e, s'))
               else run_simple_mode s rest
           | Port No_bytes \<Rightarrow> run_simple_mode s rest
           | Port Serial_fault \<Rightarrow> (Raised SerialException, s)
           | Interrupt \<Rightarrow> (Raised KeyboardInterrupt, s))"

text \<open>
  The manual mode of \<^verbatim>\<open>run\<close> (lines 273 to 282): the polling loop runs in a thread
  beside the prompt loop. A run is an interleaving of passes through the two loop
  bodies, each pass taken as one step. \<open>alive\<close> says whether the polling thread is
  still in its loop. The run ends when the prompt loop does.
\<close>

datatype event =
    Device real string serial_poll
  | Operator real string operator_input

fun run_manual_mode :: "bool \<Rightarrow> logger \<Rightarrow> event list \<Rightarrow> error option \<times> logger" where
  "run_manual_mode alive s [] = (None, s)"
| "run_manual_mode alive s (Device now system_time poll # es) =
     (if alive \<and> running s then
        (case serial_monitor_step s now system_time poll of
           (Continue, s') \<Rightarrow> run_manual_mode True s' es
         | (Break, s') \<Rightarrow> run_manual_mode False s' es)
      else run_manual_mode False s es)"
| "run_manual_mode alive s (Operator now system_time inp # es) =
     (if \<not> running s then (None, s)
      else case manual_input_step s now system_time inp of
             Inl e \<Rightarrow> (Some e, s)
           | Inr (Break, s') \<Rightarrow> (None, s')
           | Inr (Continue, s') \<Rightarrow> run_manual_mode alive s' es)"

text \<open>
  The start of \<^verbatim>\<open>run\<close> (lines 257 to 262) on the path where the port and the
  logs open: the state in which the loops begin.
\<close>

definition run_opened :: "path \<Rightarrow> bool \<Rightarrow> (path \<rightharpoonup> row list) \<Rightarrow> real \<Rightarrow> logger" where
  "run_opened out manual disk t0 =
     snd (open_csv (snd (open_serial (init out manual disk) True t0)) (\<lambda>p. True))"

section \<open>Notions used to state the properties\<close>

text \<open>A pass that does not hand a connection-start marker line to \<open>process_line\<close>.\<close>

definition no_marker :: "event \<Rightarrow> bool" where
  "no_marker e =
     (case e of
        Device now system_time (Got_line line) \<Rightarrow>
          rx_search connection_pattern (strip line) = None
      | _ \<Rightarrow> True)"

text \<open>Whitespace only; a non-empty run of decimal digits.\<close>

definition blank :: "string \<Rightarrow> bool" where
  "blank w = list_all is_space w"

definition number :: "string \<Rightarrow> bool" where
  "number d \<longleftrightarrow> d \<noteq> [] \<and> list_all is_digit d"

text \<open>A field of operator input: not empty and free of whitespace.\<close>

definition word :: "string \<Rightarrow> bool" where
  "word t \<longleftrightarrow> t \<noteq> [] \<and> list_all (\<lambda>c. \<not> is_space c) t"

text \<open>A text that begins and ends with a character that is not whitespace.\<close>

definition trimmed :: "string \<Rightarrow> bool" where
  "trimmed r \<longleftrightarrow> r \<noteq> [] \<and> \<not> is_space (hd r) \<and> \<not> is_space (last r)"

text \<open>
  Records appended one after the other: successive calls of \<open>process_line\<close>, which
  stop at the first exception, and successive calls of \<open>log_manual_heart_rate\<close>.
\<close>

fun process_lines :: "logger \<Rightarrow> (real \<times> string \<times> string) list \<Rightarrow> error option \<times> logger" where
  "process_lines s [] = (None, s)"
| "process_lines s ((now, system_time, line) # ls) =
     (case process_line s now system_time line of
        (None, s') \<Rightarrow> process_lines s' ls
      | (Some e, s') \<Rightarrow> (Some e, s'))"

fun log_manual_readings ::
  "logger \<Rightarrow> (real \<times> string \<times> int \<times> string \<times> string) list \<Rightarrow> logger" where
  "log_manual_readings s [] = s"
| "log_manual_readings s ((now, system_time, hr_value, device, notes) # es) =
     log_manual_readings (log_manual_heart_rate s now system_time hr_value device notes) es"

text \<open>
  The rows these calls are expected to add: for a device line the row of its three
  captured numbers, or nothing when the combined pattern does not match; for a manual
  reading the row with the milliseconds since the anchor \<open>a\<close>.
\<close>

definition telemetry_rows :: "real \<times> string \<times> string \<Rightarrow> row list" where
  "telemetry_rows x =
     (case x of (now, system_time, line) \<Rightarrow>
        (case rx_search combined_pattern (strip line) of
           None \<Rightarrow> []
         | Some g \<Rightarrow>
             [[Text system_time, Number (int (dec_value (g ! 0))),
               Number (int (dec_value (g ! 1))), Number (int (dec_value (g ! 2)))]]))"

definition manual_row :: "real \<Rightarrow> real \<times> string \<times> int \<times> string \<times> string \<Rightarrow> row" where
  "manual_row a x =
     (case x of (now, system_time, hr_value, device, notes) \<Rightarrow>
        [Text system_time, Number (int_of_float ((now - a) * 1000)), Number hr_value,
         Text device, Text notes])"

text \<open>The sensor log of the examples.\<close>

definition demo_csv :: path where
  "demo_csv = (''data'', ''sensor_data.csv'')"

text \<open>A disk on which both logs exist, each with its header and one record.\<close>

definition demo_disk :: "path \<rightharpoonup> row list" where
  "demo_disk =
     [demo_csv \<mapsto>
        [sensor_header, [Text ''2025-02-28 09:00:01.000'', Number 1000, Number 70, Number 97]],
      manual_path demo_csv \<mapsto>
        [manual_header,
         [Text ''2025-02-28 09:00:05.000'', Number 5000, Number 75, Text ''Polar'', Text []]]]"

section \<open>Basic facts about the operations\<close>

lemma print_sel [simp]:
  "connection_start_time (print m s) = connection_start_time s"
  "manual_csv_file (print m s) = manual_csv_file s"
  "csv_file (print m s) = csv_file s"
  "files (print m s) = files s"
  "running (print m s) = running s"
  "enable_manual_input (print m s) = enable_manual_input s"
  "output_file (print m s) = output_file s"
  "sleeps (print m s) = sleeps s"
  "console (print m s) = console s @ [m]"
  by (simp_all add: print_def)

lemma sleep_sel [simp]:
  "connection_start_time (sleep d s) = connection_start_time s"
  "manual_csv_file (sleep d s) = manual_csv_file s"
  "csv_file (sleep d s) = csv_file s"
  "files (sleep d s) = files s"
  "running (sleep d s) = running s"
  "enable_manual_input (sleep d s) = enable_manual_input s"
  "output_file (sleep d s) = output_file s"
  "sleeps (sleep d s) = sleeps s @ [d]"
  "console (sleep d s) = console s"
  by (simp_all add: sleep_def)

lemma writerow_sel [simp]:
  "connection_start_time (writerow p r s) = connection_start_time s"
  "manual_csv_file (writerow p r s) = manual_csv_file s"
  "csv_file (writerow p r s) = csv_file s"
  "running (writerow p r s) = running s"
  "enable_manual_input (writerow p r s) = enable_manual_input s"
  "output_file (writerow p r s) = output_file s"
  "sleeps (writerow p r s) = sleeps s"
  "console (writerow p r s) = console s"
  by (simp_all add: writerow_def)

lemma writerow_files:
  "files (writerow p r s) = (files s)(p \<mapsto> (case files s p of None \<Rightarrow> [] | Some rows \<Rightarrow> rows) @ [r])"
  by (simp add: writerow_def)

lemma process_line_anchor:
  "connection_start_time (snd (process_line s now system_time line)) =
     (if rx_search connection_pattern (strip line) \<noteq> None then Some now
      else connection_start_time s)"
  by (auto simp add: process_line_def Let_def split: option.splits)

lemma process_line_manual_csv_file:
  "manual_csv_file (snd (process_line s now system_time line)) = manual_csv_file s"
  by (simp add: process_line_def Let_def split: option.splits)

lemma log_manual_anchor:
  "connection_start_time (log_manual_heart_rate s now st hr d n) = connection_start_time s"
  by (simp add: log_manual_heart_rate_def estimate_arduino_timestamp_def Let_def split: option.splits)

lemma manual_input_step_anchor:
  "manual_input_step s now st inp = Inr (c, s') \<Longrightarrow> connection_start_time s' = connection_start_time s"
  by (auto simp add: manual_input_step_def Let_def log_manual_anchor split: operator_input.splits if_splits list.splits option.splits)

lemma serial_monitor_step_anchor:
  assumes "serial_monitor_step s now st poll = (c, s')"
  shows "connection_start_time s' =
     (case poll of
        Got_line line \<Rightarrow>
          if line \<noteq> [] \<and> rx_search connection_pattern (strip line) \<noteq> None then Some now
          else connection_start_time s
      | _ \<Rightarrow> connection_start_time s)"
proof (cases poll)
  case (Got_line line)
  show ?thesis
  proof (cases "line = []")
    case True
    with Got_line assms show ?thesis by (simp add: serial_monitor_step_def)
  next
    case False
    obtain e t where pl: "process_line (print (Serial_echo (strip line)) s) now st line = (e, t)"
      by (cases "process_line (print (Serial_echo (strip line)) s) now st line")
    have "connection_start_time t =
        (if rx_search connection_pattern (strip line) \<noteq> None then Some now
         else connection_start_time s)"
      using process_line_anchor[of "print (Serial_echo (strip line)) s" now st line] pl by simp
    moreover have "connection_start_time s' = connection_start_time t"
      using assms Got_line False pl
      by (auto simp add: serial_monitor_step_def split: option.splits if_splits)
    ultimately show ?thesis using Got_line False by simp
  qed
qed (use assms in \<open>auto simp add: serial_monitor_step_def split: if_splits\<close>)


lemma run_manual_mode_anchor:
  "list_all no_marker es \<Longrightarrow> run_manual_mode alive s es = (e, s') \<Longrightarrow>
   connection_start_time s' = connection_start_time s"
proof (induction alive s es rule: run_manual_mode.induct)
  case (1 alive s)
  then show ?case by simp
next
  case (2 alive s now system_time poll es)
  show ?case
  proof (cases "alive \<and> running s")
    case True
    obtain c t where st: "serial_monitor_step s now system_time poll = (c, t)"
      by (cases "serial_monitor_step s now system_time poll")
    have keep: "connection_start_time t = connection_start_time s"
      using serial_monitor_step_anchor[OF st] "2.prems"(1)
      by (auto simp add: no_marker_def split: serial_poll.splits)
    show ?thesis
    proof (cases c)
      case Continue
      with "2.IH"(1)[OF True st[symmetric]] "2.prems" True st keep show ?thesis by simp
    next
      case Break
      with "2.IH"(2)[OF True st[symmetric]] "2.prems" True st keep show ?thesis by simp
    qed
  next
    case False
    with "2.IH"(3) "2.prems" show ?thesis by simp
  qed
next
  case (3 alive s now system_time inp es)
  show ?case
  proof (cases "running s")
    case False
    with "3.prems" show ?thesis by simp
  next
    case True
    show ?thesis
    proof (cases "manual_input_step s now system_time inp")
      case (Inl err)
      with True "3.prems" show ?thesis by simp
    next
      case (Inr ct)
      obtain c t where ct: "ct = (c, t)" by (cases ct)
      have keep: "connection_start_time t = connection_start_time s"
        using manual_input_step_anchor Inr ct by simp
      show ?thesis
      proof (cases c)
        case Continue
        with "3.IH" True Inr ct "3.prems" keep show ?thesis by simp
      next
        case Break
        with True Inr ct "3.prems" keep show ?thesis by simp
      qed
    qed
  qed
qed


lemma run_manual_mode_invariant:
  assumes "P s"
    and dev: "\<And>s now st poll c t. P s \<Longrightarrow> serial_monitor_step s now st poll = (c, t) \<Longrightarrow> P t"
    and opr: "\<And>s now st inp c t. P s \<Longrightarrow> manual_input_step s now st inp = Inr (c, t) \<Longrightarrow> P t"
    and "run_manual_mode alive s es = (e, s')"
  shows "P s'"
  using assms(1,4)
proof (induction alive s es rule: run_manual_mode.induct)
  case (1 alive s)
  then show ?case by simp
next
  case (2 alive s now system_time poll es)
  show ?case
  proof (cases "alive \<and> running s")
    case True
    obtain c t where st: "serial_monitor_step s now system_time poll = (c, t)"
      by (cases "serial_monitor_step s now system_time poll")
    have Pt: "P t" using dev[OF "2.prems"(1) st] .
    show ?thesis
    proof (cases c)
      case Continue
      with "2.IH"(1)[OF True st[symmetric]] "2.prems" True st Pt show ?thesis by simp
    next
      case Break
      with "2.IH"(2)[OF True st[symmetric]] "2.prems" True st Pt show ?thesis by simp
    qed
  next
    case False
    with "2.IH"(3) "2.prems" show ?thesis by simp
  qed
next
  case (3 alive s now system_time inp es)
  show ?case
  proof (cases "running s")
    case False
    with "3.prems" show ?thesis by simp
  next
    case True
    show ?thesis
    proof (cases "manual_input_step s now system_time inp")
      case (Inl err)
      with True "3.prems" show ?thesis by simp
    next
      case (Inr ct)
      obtain c t where ct: "ct = (c, t)" by (cases ct)
      have Pt: "P t" using opr[OF "3.prems"(1)] Inr ct by simp
      show ?thesis
      proof (cases c)
        case Continue
        with "3.IH" True Inr ct "3.prems" Pt show ?thesis by simp
      next
        case Break
        with True Inr ct "3.prems" Pt show ?thesis by simp
      qed
    qed
  qed
qed

lemma run_manual_mode_anchor_set:
  assumes "connection_start_time s \<noteq> None" and "run_manual_mode alive s es = (e, s')"
  shows "connection_start_time s' \<noteq> None"
proof (rule run_manual_mode_invariant[where P = "\<lambda>s. connection_start_time s \<noteq> None", OF assms(1) _ _ assms(2)])
  fix s now st poll c t
  assume "connection_start_time s \<noteq> None" "serial_monitor_step s now st poll = (c, t)"
  then show "connection_start_time t \<noteq> None"
    using serial_monitor_step_anchor[of s now st poll c t]
    by (auto split: serial_poll.splits if_splits)
next
  fix s now st inp c t
  assume "connection_start_time s \<noteq> None" "manual_input_step s now st inp = Inr (c, t)"
  then show "connection_start_time t \<noteq> None"
    using manual_input_step_anchor[of s now st inp c t] by simp
qed

lemma open_serial_anchor:
  "open_serial s port_opens t0 = (True, s') \<Longrightarrow> connection_start_time s' = Some t0"
  by (auto simp add: open_serial_def Let_def split: if_splits)

lemma open_csv_anchor:
  "open_csv s openable = (b, s') \<Longrightarrow> connection_start_time s' = connection_start_time s"
  by (auto simp add: open_csv_def Let_def open_append_def split: if_splits)

lemma log_manual_heart_rate_synced:
  assumes "manual_csv_file s = Some p" and "connection_start_time s = Some a"
  shows "log_manual_heart_rate s now system_time hr_value device notes =
     print (Manual_saved (Ms (Number (int_of_float ((now - a) * 1000)))) hr_value device)
       (writerow p [Text system_time, Number (int_of_float ((now - a) * 1000)),
                    Number hr_value, Text device, Text notes] s)"
  using assms by (simp add: log_manual_heart_rate_def estimate_arduino_timestamp_def)


lemma strip_prefix: "\<exists>t. dropWhile is_space s = strip s @ t"
proof -
  let ?d = "dropWhile is_space s"
  have "rev (takeWhile is_space (rev ?d) @ dropWhile is_space (rev ?d)) = ?d"
    by (simp only: takeWhile_dropWhile_id rev_rev_ident)
  then have "?d = strip s @ rev (takeWhile is_space (rev ?d))"
    unfolding rev_append strip_def by simp
  then show ?thesis by blast
qed

lemma strip_no_lead:
  assumes "strip s \<noteq> []"
  shows "\<not> is_space (hd (strip s))"
proof -
  obtain t where t: "dropWhile is_space s = strip s @ t" using strip_prefix by blast
  with assms have ne: "dropWhile is_space s \<noteq> []" by auto
  have "hd (dropWhile is_space s) = hd (strip s)" using t assms by simp
  with hd_dropWhile[OF ne] show ?thesis by simp
qed

lemma dropWhile_no_lead: "xs \<noteq> [] \<Longrightarrow> \<not> P (hd xs) \<Longrightarrow> dropWhile P xs = xs"
  by (cases xs) auto

lemma split_ws_strip_nonempty:
  assumes "strip raw \<noteq> []"
  shows "split_ws (Suc n) (strip raw) \<noteq> []"
  using assms dropWhile_no_lead[of "strip raw" is_space] strip_no_lead[OF assms]
  by (simp add: Let_def)

section \<open>Lines that match neither pattern\<close>

text \<open>
  Claim C6. A line on which neither the combined-telemetry pattern nor the
  connection-start pattern finds a match is discarded by \<open>process_line\<close>: no exception
  is raised and the state returned is the state given. So no row is added to either
  log, nothing is printed, and the synchronization anchor is what it was.
\<close>

theorem unrecognised_line_discarded:
  assumes "rx_search combined_pattern (strip line) = None"
    and "rx_search connection_pattern (strip line) = None"
  shows "process_line s now system_time line = (None, s)"
  using assms by (simp add: process_line_def)

theorem unrecognised_line_discarded_witness:
  "rx_search combined_pattern (strip ''garbage noise'') = None \<and>
   rx_search connection_pattern (strip ''garbage noise'') = None \<and>
   process_line (run_opened demo_csv True Map.empty 100) 101 ''2025-03-01 10:00:01.000''
       ''garbage noise'' =
     (None, run_opened demo_csv True Map.empty 100)"
proof -
  have a: "rx_search combined_pattern (strip ''garbage noise'') = None" by code_simp
  have b: "rx_search connection_pattern (strip ''garbage noise'') = None" by code_simp
  from a b unrecognised_line_discarded[OF a b] show ?thesis by blast
qed

section \<open>Lines that match both patterns\<close>

text \<open>
  Claim C10. The two checks of \<open>process_line\<close> are independent. When one line matches
  the connection-start pattern and also the combined-telemetry pattern, and the sensor
  log is open, processing that line raises nothing, replaces the anchor by the current
  wall time and appends to the sensor log the row made of the three captured numbers.
\<close>

theorem line_matching_both_patterns:
  assumes "rx_search connection_pattern (strip line) \<noteq> None"
    and "rx_search combined_pattern (strip line) = Some g"
    and "csv_file s = Some p"
    and "files s p = Some rows"
  shows "\<exists>s'. process_line s now system_time line = (None, s') \<and>
           connection_start_time s' = Some now \<and>
           files s' p = Some (rows @ [[Text system_time, Number (int (dec_value (g ! 0))),
             Number (int (dec_value (g ! 1))), Number (int (dec_value (g ! 2)))]])"
  using assms by (auto simp add: process_line_def Let_def writerow_files)

lemma run_opened_simps:
  "csv_file (run_opened out manual disk t0) = Some out"
  "connection_start_time (run_opened out manual disk t0) = Some t0"
  "manual_csv_file (run_opened out manual disk t0) = (if manual then Some (manual_path out) else None)"
  "enable_manual_input (run_opened out manual disk t0) = manual"
  "running (run_opened out manual disk t0)"
  by (simp_all add: run_opened_def open_csv_def open_serial_def init_def Let_def open_append_def)

lemma run_opened_new_files:
  "files (run_opened out False Map.empty t0) = [out \<mapsto> [sensor_header]]"
  by (simp add: run_opened_def open_csv_def open_serial_def init_def Let_def open_append_def writerow_files)

theorem line_matching_both_patterns_witness:
  "\<exists>s'. process_line (run_opened demo_csv False Map.empty 100) 130 ''2025-03-01 10:00:30.000''
          ''Connection timestamp set at millis: 5 TIMESTAMP_MS: 1500 | HR: 72 | SpO2: 98'' = (None, s') \<and>
        connection_start_time s' = Some 130 \<and>
        files s' demo_csv = Some [sensor_header,
          [Text ''2025-03-01 10:00:30.000'', Number 1500, Number 72, Number 98]]"
proof -
  let ?l = "''Connection timestamp set at millis: 5 TIMESTAMP_MS: 1500 | HR: 72 | SpO2: 98''"
  have a: "rx_search connection_pattern (strip ?l) \<noteq> None" by code_simp
  have b: "rx_search combined_pattern (strip ?l) = Some [''1500'', ''72'', ''98'']" by code_simp
  have c: "csv_file (run_opened demo_csv False Map.empty 100) = Some demo_csv"
    by (simp add: run_opened_simps)
  have d: "files (run_opened demo_csv False Map.empty 100) demo_csv = Some [sensor_header]"
    by (simp add: run_opened_new_files)
  have v: "dec_value ''1500'' = 1500" "dec_value ''72'' = 72" "dec_value ''98'' = 98"
    by (simp_all add: dec_value_def digit_val_def)
  from line_matching_both_patterns[OF a b c d, of 130 "''2025-03-01 10:00:30.000''"] v
  show ?thesis by simp
qed


section \<open>The anchor after two markers\<close>

text \<open>
  Claim C5. Two connection-start marker lines are processed, the first at wall time
  \<open>t1\<close> and the second at \<open>t2\<close>; any passes of the two loops follow in which no further
  marker line arrives. Then the device-time estimate at wall time \<open>now\<close> is the whole
  number of milliseconds in \<open>now - t2\<close>, and a manual reading logged then carries that
  number: \<open>t1\<close> plays no part. This holds for all clock readings, in particular for
  \<open>t1 < t2 < now\<close>.
\<close>

theorem reestablished_anchor_is_used:
  assumes "rx_search connection_pattern (strip line1) \<noteq> None"
    and "rx_search connection_pattern (strip line2) \<noteq> None"
    and "process_line s t1 st1 line1 = (e1, sa)"
    and "process_line sa t2 st2 line2 = (e2, sb)"
    and "list_all no_marker es"
    and "run_manual_mode alive sb es = (e3, sc)"
  shows "estimate_arduino_timestamp sc now = (Number (int_of_float ((now - t2) * 1000)), sc) \<and>
         (\<forall>p. manual_csv_file sc = Some p \<longrightarrow>
            log_manual_heart_rate sc now system_time hr_value device notes =
              print (Manual_saved (Ms (Number (int_of_float ((now - t2) * 1000)))) hr_value device)
                (writerow p [Text system_time, Number (int_of_float ((now - t2) * 1000)),
                   Number hr_value, Text device, Text notes] sc))"
proof -
  have "connection_start_time sb = Some t2"
    using process_line_anchor[of sa t2 st2 line2] assms(2,4) by simp
  then have a: "connection_start_time sc = Some t2"
    using run_manual_mode_anchor[OF assms(5,6)] by simp
  then show ?thesis
    by (simp add: log_manual_heart_rate_synced estimate_arduino_timestamp_def)
qed

theorem reestablished_anchor_is_used_witness:
  "estimate_arduino_timestamp
     (snd (run_manual_mode True
        (snd (process_line
           (snd (process_line (run_opened demo_csv True Map.empty 90) 100
              ''2025-03-01 10:00:10.000'' ''Connection timestamp set at millis: 0''))
           200 ''2025-03-01 10:01:50.000'' ''Connection timestamp set at millis: 3''))
        [Device 201 ''2025-03-01 10:01:51.000'' (Got_line ''TIMESTAMP_MS: 1000 | HR: 72 | SpO2: 98'')]))
     205
   = (Number 5000,
      snd (run_manual_mode True
        (snd (process_line
           (snd (process_line (run_opened demo_csv True Map.empty 90) 100
              ''2025-03-01 10:00:10.000'' ''Connection timestamp set at millis: 0''))
           200 ''2025-03-01 10:01:50.000'' ''Connection timestamp set at millis: 3''))
        [Device 201 ''2025-03-01 10:01:51.000'' (Got_line ''TIMESTAMP_MS: 1000 | HR: 72 | SpO2: 98'')]))"
proof -
  have a: "rx_search connection_pattern (strip ''Connection timestamp set at millis: 0'') \<noteq> None"
    by code_simp
  have b: "rx_search connection_pattern (strip ''Connection timestamp set at millis: 3'') \<noteq> None"
    by code_simp
  have c: "rx_search connection_pattern (strip ''TIMESTAMP_MS: 1000 | HR: 72 | SpO2: 98'') = None"
    by code_simp
  have d: "list_all no_marker
      [Device 201 ''2025-03-01 10:01:51.000'' (Got_line ''TIMESTAMP_MS: 1000 | HR: 72 | SpO2: 98'')]"
    using c by (simp add: no_marker_def)
  have v: "int_of_float ((205 - 200) * 1000) = 5000" by (simp add: int_of_float_def)
  from reestablished_anchor_is_used[
      where s = "run_opened demo_csv True Map.empty 90" and ?t1.0 = 100 and ?t2.0 = 200
        and ?st1.0 = "''2025-03-01 10:00:10.000''" and ?st2.0 = "''2025-03-01 10:01:50.000''"
        and alive = True and now = 205,
      OF a b surjective_pairing surjective_pairing d surjective_pairing] v
  show ?thesis by simp
qed

section \<open>The anchor is set from the moment the port is open\<close>

text \<open>
  Claim C9. Once \<open>open_serial\<close> has succeeded (and the logs are open), after any
  passes of the polling loop and the prompt loop \<open>connection_start_time\<close> holds a
  value \<open>a\<close>. So \<open>log_manual_heart_rate\<close> never takes its fallback branch (no warning
  is printed), and the row it writes carries the integer number of milliseconds in
  \<open>now - a\<close>.
\<close>

theorem anchor_set_once_port_is_open:
  assumes "open_serial s0 port_opens t0 = (True, s1)"
    and "open_csv s1 openable = (True, s2)"
    and "run_manual_mode alive s2 es = (e, s3)"
  shows "\<exists>a. connection_start_time s3 = Some a \<and>
           (\<forall>now. estimate_arduino_timestamp s3 now =
              (Number (int_of_float ((now - a) * 1000)), s3)) \<and>
           (\<forall>p now system_time hr_value device notes.
              manual_csv_file s3 = Some p \<longrightarrow>
              log_manual_heart_rate s3 now system_time hr_value device notes =
                print (Manual_saved (Ms (Number (int_of_float ((now - a) * 1000)))) hr_value device)
                  (writerow p [Text system_time, Number (int_of_float ((now - a) * 1000)),
                     Number hr_value, Text device, Text notes] s3))"
proof -
  have "connection_start_time s2 \<noteq> None"
    using open_serial_anchor[OF assms(1)] open_csv_anchor[OF assms(2)] by simp
  then have "connection_start_time s3 \<noteq> None"
    using run_manual_mode_anchor_set assms(3) by blast
  then obtain a where a: "connection_start_time s3 = Some a" by blast
  then show ?thesis
    by (simp add: log_manual_heart_rate_synced estimate_arduino_timestamp_def)
qed


lemma open_serial_True: "open_serial s True t0 = (True, snd (open_serial s True t0))"
  by (simp add: open_serial_def Let_def)

lemma open_csv_True: "open_csv s (\<lambda>p. True) = (True, snd (open_csv s (\<lambda>p. True)))"
  by (simp add: open_csv_def Let_def)

lemma run_opened_steps:
  "open_serial (init out manual disk) True t0 = (True, snd (open_serial (init out manual disk) True t0))"
  "open_csv (snd (open_serial (init out manual disk) True t0)) (\<lambda>p. True) =
     (True, run_opened out manual disk t0)"
  unfolding run_opened_def by (rule open_serial_True, rule open_csv_True)

lemma serial_monitor_step_manual_csv_file:
  "serial_monitor_step s now st poll = (c, t) \<Longrightarrow> manual_csv_file t = manual_csv_file s"
proof (cases poll)
  case (Got_line line)
  assume a: "serial_monitor_step s now st poll = (c, t)"
  obtain e u where pl: "process_line (print (Serial_echo (strip line)) s) now st line = (e, u)"
    by (cases "process_line (print (Serial_echo (strip line)) s) now st line")
  have "manual_csv_file u = manual_csv_file s"
    using process_line_manual_csv_file[of "print (Serial_echo (strip line)) s" now st line] pl
    by simp
  with a Got_line pl show ?thesis
    by (auto simp add: serial_monitor_step_def split: if_splits option.splits)
qed (auto simp add: serial_monitor_step_def split: if_splits)

lemma log_manual_manual_csv_file:
  "manual_csv_file (log_manual_heart_rate s now st hr d n) = manual_csv_file s"
  by (simp add: log_manual_heart_rate_def estimate_arduino_timestamp_def Let_def split: option.splits)

lemma manual_input_step_manual_csv_file:
  "manual_input_step s now st inp = Inr (c, t) \<Longrightarrow> manual_csv_file t = manual_csv_file s"
  by (auto simp add: manual_input_step_def Let_def log_manual_manual_csv_file
      split: operator_input.splits if_splits list.splits option.splits)

lemma run_manual_mode_manual_csv_file:
  assumes "run_manual_mode alive s es = (e, s')"
  shows "manual_csv_file s' = manual_csv_file s"
proof (rule run_manual_mode_invariant[where P = "\<lambda>t. manual_csv_file t = manual_csv_file s",
      OF _ _ _ assms])
  show "manual_csv_file s = manual_csv_file s" by simp
next
  fix u now st poll c t
  assume "manual_csv_file u = manual_csv_file s" "serial_monitor_step u now st poll = (c, t)"
  then show "manual_csv_file t = manual_csv_file s"
    using serial_monitor_step_manual_csv_file by metis
next
  fix u now st inp c t
  assume "manual_csv_file u = manual_csv_file s" "manual_input_step u now st inp = Inr (c, t)"
  then show "manual_csv_file t = manual_csv_file s"
    using manual_input_step_manual_csv_file by metis
qed

theorem anchor_set_once_port_is_open_witness:
  "\<exists>a. connection_start_time
          (snd (run_manual_mode True (run_opened demo_csv True Map.empty 100)
             [Device 120 ''2025-03-01 10:00:20.000'' (Got_line ''garbage noise''),
              Operator 125 ''2025-03-01 10:00:25.000'' (Entered ''81 Polar'')])) = Some a \<and>
        log_manual_heart_rate
          (snd (run_manual_mode True (run_opened demo_csv True Map.empty 100)
             [Device 120 ''2025-03-01 10:00:20.000'' (Got_line ''garbage noise''),
              Operator 125 ''2025-03-01 10:00:25.000'' (Entered ''81 Polar'')]))
          130 ''2025-03-01 10:00:30.000'' 79 ''Polar'' [] =
        print (Manual_saved (Ms (Number (int_of_float ((130 - a) * 1000)))) 79 ''Polar'')
          (writerow (manual_path demo_csv)
             [Text ''2025-03-01 10:00:30.000'', Number (int_of_float ((130 - a) * 1000)),
              Number 79, Text ''Polar'', Text []]
             (snd (run_manual_mode True (run_opened demo_csv True Map.empty 100)
                [Device 120 ''2025-03-01 10:00:20.000'' (Got_line ''garbage noise''),
                 Operator 125 ''2025-03-01 10:00:25.000'' (Entered ''81 Polar'')])))"
proof -
  let ?es = "[Device 120 ''2025-03-01 10:00:20.000'' (Got_line ''garbage noise''),
              Operator 125 ''2025-03-01 10:00:25.000'' (Entered ''81 Polar'')]"
  let ?s3 = "snd (run_manual_mode True (run_opened demo_csv True Map.empty 100) ?es)"
  have m: "manual_csv_file ?s3 = Some (manual_path demo_csv)"
    using run_manual_mode_manual_csv_file[
        where alive = True and s = "run_opened demo_csv True Map.empty 100" and es = ?es,
        OF surjective_pairing]
    by (simp add: run_opened_simps)
  from anchor_set_once_port_is_open[
      where ?s0.0 = "init demo_csv True Map.empty" and ?t0.0 = 100 and alive = True
        and es = ?es and ?s2.0 = "run_opened demo_csv True Map.empty 100",
      OF run_opened_steps surjective_pairing] m
  show ?thesis by blast
qed

lemma entry_81_Polar:
  "manual_input_step s now st (Entered ''81 Polar'') =
     Inr (Continue, log_manual_heart_rate s now st 81 ''Polar'' [])"
proof -
  have p: "strip ''81 Polar'' = ''81 Polar''" by code_simp
  have q: "split_ws 2 ''81 Polar'' = [''81'', ''Polar'']" by code_simp
  have r: "py_int ''81'' = Some 81" by code_simp
  show ?thesis by (simp add: manual_input_step_def p q r)
qed


lemma manual_path_neq [simp]: "manual_path p \<noteq> p" "p \<noteq> manual_path p"
proof -
  have "length (snd (manual_path p)) \<noteq> length (snd p)" by (simp add: manual_path_def)
  then show "manual_path p \<noteq> p" by auto
  then show "p \<noteq> manual_path p" by auto
qed

lemma run_opened_new_manual_files:
  "files (run_opened out True Map.empty t0) (manual_path out) = Some [manual_header]"
  by (simp add: run_opened_def open_csv_def open_serial_def init_def Let_def open_append_def
      writerow_files)

lemma marker_line_0:
  "rx_search connection_pattern (strip ''Connection timestamp set at millis: 0'') \<noteq> None"
  "rx_search combined_pattern (strip ''Connection timestamp set at millis: 0'') = None"
  "''Connection timestamp set at millis: 0'' \<noteq> []"
  by code_simp+

section \<open>Readings entered before any marker\<close>

text \<open>
  Claim C1 asks that a manual reading entered before any connection-start marker be
  written with a timestamp marked as unsynced, distinguishable from the plain integer
  of a synced reading. It is not: in a session whose port opens at wall time 100 and
  sees no marker, the reading \<^verbatim>\<open>81 Polar\<close> entered at 105 is written with the
  plain integer 5000, and the manual log is the same, row for row, as in a session that
  did see a marker at 100.
\<close>

theorem unsynced_row_same_as_synced_row:
  "files (snd (run_manual_mode True (run_opened demo_csv True Map.empty 100)
       [Operator 105 ''2025-03-01 10:00:05.000'' (Entered ''81 Polar'')]))
     (manual_path demo_csv) =
     Some [manual_header,
           [Text ''2025-03-01 10:00:05.000'', Number 5000, Number 81, Text ''Polar'', Text []]] \<and>
   files (snd (run_manual_mode True (run_opened demo_csv True Map.empty 90)
       [Device 100 ''2025-03-01 10:00:00.000'' (Got_line ''Connection timestamp set at millis: 0''),
        Operator 105 ''2025-03-01 10:00:05.000'' (Entered ''81 Polar'')]))
     (manual_path demo_csv) =
     Some [manual_header,
           [Text ''2025-03-01 10:00:05.000'', Number 5000, Number 81, Text ''Polar'', Text []]]"
proof -
  have v: "int_of_float ((105 - 100) * 1000) = 5000" by (simp add: int_of_float_def)
  have "process_line (print (Serial_echo (strip ''Connection timestamp set at millis: 0''))
          (run_opened demo_csv True Map.empty 90)) 100 ''2025-03-01 10:00:00.000''
          ''Connection timestamp set at millis: 0'' =
        (None, print Connection_detected
           ((print (Serial_echo (strip ''Connection timestamp set at millis: 0''))
              (run_opened demo_csv True Map.empty 90))\<lparr>connection_start_time := Some 100\<rparr>))"
    using marker_line_0 by (simp add: process_line_def run_opened_simps)
  then show ?thesis
    using v marker_line_0(3)
    by (simp add: entry_81_Polar serial_monitor_step_def run_opened_simps
        log_manual_heart_rate_def estimate_arduino_timestamp_def writerow_files
        run_opened_new_manual_files)
qed

text \<open>
  Claim C1 as amended. The port and the logs have been opened, the port at wall time
  \<open>t0\<close>, and no connection-start marker line has been processed since. Then a manual
  reading logged at wall time \<open>now\<close> is written with the plain integer number of
  milliseconds in \<open>now - t0\<close> in its second column, in the same form as a synced reading.
\<close>

theorem reading_before_any_marker:
  assumes "open_serial s0 port_opens t0 = (True, s1)"
    and "open_csv s1 openable = (True, s2)"
    and "list_all no_marker es"
    and "run_manual_mode alive s2 es = (e, s3)"
    and "manual_csv_file s3 = Some p"
  shows "log_manual_heart_rate s3 now system_time hr_value device notes =
     print (Manual_saved (Ms (Number (int_of_float ((now - t0) * 1000)))) hr_value device)
       (writerow p [Text system_time, Number (int_of_float ((now - t0) * 1000)),
          Number hr_value, Text device, Text notes] s3)"
proof -
  have "connection_start_time s2 = Some t0"
    using open_serial_anchor[OF assms(1)] open_csv_anchor[OF assms(2)] by simp
  then have "connection_start_time s3 = Some t0"
    using run_manual_mode_anchor[OF assms(3,4)] by simp
  with assms(5) show ?thesis by (rule log_manual_heart_rate_synced)
qed

theorem reading_before_any_marker_witness:
  "log_manual_heart_rate
     (snd (run_manual_mode True (run_opened demo_csv True Map.empty 100)
        [Device 101 ''2025-03-01 10:00:01.000'' (Got_line ''garbage noise'')]))
     105 ''2025-03-01 10:00:05.000'' 81 ''Polar'' [] =
   print (Manual_saved (Ms (Number 5000)) 81 ''Polar'')
     (writerow (manual_path demo_csv)
        [Text ''2025-03-01 10:00:05.000'', Number 5000, Number 81, Text ''Polar'', Text []]
        (snd (run_manual_mode True (run_opened demo_csv True Map.empty 100)
           [Device 101 ''2025-03-01 10:00:01.000'' (Got_line ''garbage noise'')])))"
proof -
  let ?es = "[Device 101 ''2025-03-01 10:00:01.000'' (Got_line ''garbage noise'')]"
  let ?s3 = "snd (run_manual_mode True (run_opened demo_csv True Map.empty 100) ?es)"
  have v: "int_of_float ((105 - 100) * 1000) = 5000" by (simp add: int_of_float_def)
  have g: "rx_search connection_pattern (strip ''garbage noise'') = None" by code_simp
  have n: "list_all no_marker ?es" using g by (simp add: no_marker_def)
  have m: "manual_csv_file ?s3 = Some (manual_path demo_csv)"
    using run_manual_mode_manual_csv_file[
        where alive = True and s = "run_opened demo_csv True Map.empty 100" and es = ?es,
        OF surjective_pairing]
    by (simp add: run_opened_simps)
  from reading_before_any_marker[
      where ?s0.0 = "init demo_csv True Map.empty" and ?t0.0 = 100 and alive = True
        and es = ?es and ?s2.0 = "run_opened demo_csv True Map.empty 100" and now = 105,
      OF run_opened_steps n surjective_pairing m] v
  show ?thesis by simp
qed

section \<open>Operator input that is not a number\<close>

text \<open>
  Claim C8. The operator enters a line that is not empty once stripped and whose first
  field \<^verbatim>\<open>int()\<close> rejects. Then the pass through the prompt loop raises nothing,
  prints the invalid-input message and changes nothing else in the state (no row is
  written), and the loop goes on to the next prompt.
\<close>

theorem malformed_heart_rate_reprompts:
  assumes "strip raw \<noteq> []"
    and "py_int (hd (split_ws 2 (strip raw))) = None"
  shows "manual_input_step s now system_time (Entered raw) = Inr (Continue, print Invalid_input s) \<and>
         (running s \<longrightarrow>
            manual_input_iter s ((now, system_time, Entered raw) # rest) =
              manual_input_iter (print Invalid_input s) rest)"
proof -
  have "split_ws 2 (strip raw) \<noteq> []"
    using split_ws_strip_nonempty[OF assms(1), of 1] by (simp add: numeral_2_eq_2)
  then obtain p0 ps where ps: "split_ws 2 (strip raw) = p0 # ps"
    by (cases "split_ws 2 (strip raw)") auto
  with assms(2) have "py_int p0 = None" by simp
  with assms(1) ps
  have step: "manual_input_step s now system_time (Entered raw) = Inr (Continue, print Invalid_input s)"
    by (simp add: manual_input_step_def)
  then show ?thesis by simp
qed

theorem malformed_heart_rate_reprompts_witness:
  "strip ''abc Polar'' \<noteq> [] \<and> py_int (hd (split_ws 2 (strip ''abc Polar''))) = None \<and>
   running (run_opened demo_csv True Map.empty 100) \<and>
   manual_input_step (run_opened demo_csv True Map.empty 100) 105 ''2025-03-01 10:00:05.000''
     (Entered ''abc Polar'') =
     Inr (Continue, print Invalid_input (run_opened demo_csv True Map.empty 100)) \<and>
   manual_input_iter (run_opened demo_csv True Map.empty 100)
     [(105, ''2025-03-01 10:00:05.000'', Entered ''abc Polar'')] =
     (None, print Invalid_input (run_opened demo_csv True Map.empty 100))"
proof -
  have a: "strip ''abc Polar'' \<noteq> []" by code_simp
  have b: "py_int (hd (split_ws 2 (strip ''abc Polar''))) = None" by code_simp
  have c: "running (run_opened demo_csv True Map.empty 100)" by (simp add: run_opened_simps)
  from malformed_heart_rate_reprompts[OF a b, of "run_opened demo_csv True Map.empty 100" 105
      "''2025-03-01 10:00:05.000''" "[]"] a b c
  show ?thesis by simp
qed

section \<open>Idle polls in the simple mode\<close>

text \<open>
  Claim C4 says that in the simple mode every poll that finds no byte is followed by
  a short sleep. On three such polls the simple-mode loop of \<open>run\<close> leaves the state
  as it was: it has not slept. The loop of \<open>serial_monitor_loop\<close>, given the same
  polls, sleeps a hundredth of a second after each.
\<close>

theorem simple_mode_idle_polls_never_sleep:
  "run_simple_mode (run_opened demo_csv False Map.empty 100)
     [(101, ''2025-03-01 10:00:01.000'', Port No_bytes),
      (102, ''2025-03-01 10:00:02.000'', Port No_bytes),
      (103, ''2025-03-01 10:00:03.000'', Port No_bytes)] =
     (Polling, run_opened demo_csv False Map.empty 100) \<and>
   sleeps (snd (serial_monitor_loop (run_opened demo_csv False Map.empty 100)
     [(101, ''2025-03-01 10:00:01.000'', No_bytes),
      (102, ''2025-03-01 10:00:02.000'', No_bytes),
      (103, ''2025-03-01 10:00:03.000'', No_bytes)])) =
     sleeps (run_opened demo_csv False Map.empty 100) @ [1 / 100, 1 / 100, 1 / 100]"
  by (simp add: run_opened_simps serial_monitor_step_def)


section \<open>Telemetry lines\<close>

lemma space_not_digit: "is_space c \<Longrightarrow> \<not> is_digit c"
  by (auto simp add: is_space_def is_digit_def)

lemma rx_spaces_greedy:
  assumes "blank w" and "takeWhile is_space s = []" and "rx_from r s = Some g"
  shows "rx_from (Spaces # r) (w @ s) = Some g"
proof -
  have tw: "takeWhile is_space (w @ s) = w"
    using assms(1,2) by (simp add: blank_def list_all_iff)
  show ?thesis
  proof (cases w)
    case Nil
    with assms tw show ?thesis by simp
  next
    case (Cons c cs)
    with assms(3) tw show ?thesis by simp
  qed
qed

lemma rx_digits_greedy:
  assumes "number d" and "takeWhile is_digit s = []" and "rx_from r s = Some g"
  shows "rx_from (Digits # r) (d @ s) = Some (d # g)"
proof -
  have tw: "takeWhile is_digit (d @ s) = d"
    using assms(1,2) by (simp add: number_def list_all_iff)
  from assms(1) obtain c cs where d: "d = c # cs" by (cases d) (auto simp add: number_def)
  with assms(3) tw show ?thesis by simp
qed

lemma number_no_space: "number d \<Longrightarrow> takeWhile is_space (d @ t) = []"
  by (cases d) (auto simp add: number_def space_not_digit)

lemma blank_no_digit: "blank w \<Longrightarrow> takeWhile is_digit t = [] \<Longrightarrow> takeWhile is_digit (w @ t) = []"
  by (cases w) (auto simp add: blank_def space_not_digit)

lemma rx_from_search: "rx_from r s = Some g \<Longrightarrow> rx_search r s = Some g"
  by (cases s) simp_all

lemma combined_from:
  assumes w: "blank w1" "blank w2" "blank w3" "blank w4" "blank w5" "blank w6" "blank w7"
    and d: "number d1" "number d2" "number d3"
    and r: "takeWhile is_digit rest = []"
  shows "rx_from combined_pattern
     (''TIMESTAMP_MS:'' @ w1 @ d1 @ w2 @ ''|'' @ w3 @ ''HR:'' @ w4 @ d2 @ w5 @ ''|'' @ w6 @
      ''SpO2:'' @ w7 @ d3 @ rest) = Some [d1, d2, d3]"
proof -
  have nsp: "\<not> is_space CHR ''|''" "\<not> is_space CHR ''H''" "\<not> is_space CHR ''S''"
    and ndg: "\<not> is_digit CHR ''|''"
    by (simp_all add: is_space_def is_digit_def)
  have e1: "rx_from [Digits] (d3 @ rest) = Some [d3]"
    using rx_digits_greedy[OF d(3) r, of "[]" "[]"] by simp
  have e2: "rx_from [Spaces, Digits] (w7 @ d3 @ rest) = Some [d3]"
    by (rule rx_spaces_greedy[OF w(7) number_no_space[OF d(3)] e1])
  have e3: "rx_from [Lit ''SpO2:'', Spaces, Digits] (''SpO2:'' @ w7 @ d3 @ rest) = Some [d3]"
    using e2 by simp
  let ?t3 = "''SpO2:'' @ w7 @ d3 @ rest"
  have e4: "rx_from [Spaces, Lit ''SpO2:'', Spaces, Digits] (w6 @ ?t3) = Some [d3]"
    by (rule rx_spaces_greedy[OF w(6) _ e3]) (simp add: nsp)
  let ?p4 = "[Lit ''|'', Spaces, Lit ''SpO2:'', Spaces, Digits]"
  have e5: "rx_from ?p4 (''|'' @ w6 @ ?t3) = Some [d3]"
    using e4 by simp
  have e6: "rx_from (Spaces # ?p4) (w5 @ ''|'' @ w6 @ ?t3) = Some [d3]"
    by (rule rx_spaces_greedy[OF w(5) _ e5]) (simp add: nsp)
  have e7: "rx_from (Digits # Spaces # ?p4) (d2 @ w5 @ ''|'' @ w6 @ ?t3) = Some [d2, d3]"
    by (rule rx_digits_greedy[OF d(2) blank_no_digit[OF w(5)] e6]) (simp add: ndg)
  let ?t7 = "d2 @ w5 @ ''|'' @ w6 @ ?t3"
  let ?p7 = "Digits # Spaces # ?p4"
  have e8: "rx_from (Spaces # ?p7) (w4 @ ?t7) = Some [d2, d3]"
    by (rule rx_spaces_greedy[OF w(4) number_no_space[OF d(2)] e7])
  have e9: "rx_from (Lit ''HR:'' # Spaces # ?p7) (''HR:'' @ w4 @ ?t7) = Some [d2, d3]"
    using e8 by simp
  let ?t9 = "''HR:'' @ w4 @ ?t7"
  let ?p9 = "Lit ''HR:'' # Spaces # ?p7"
  have e10: "rx_from (Spaces # ?p9) (w3 @ ?t9) = Some [d2, d3]"
    by (rule rx_spaces_greedy[OF w(3) _ e9]) (simp add: nsp)
  have e11: "rx_from (Lit ''|'' # Spaces # ?p9) (''|'' @ w3 @ ?t9) = Some [d2, d3]"
    using e10 by simp
  let ?t11 = "''|'' @ w3 @ ?t9"
  let ?p11 = "Lit ''|'' # Spaces # ?p9"
  have e12: "rx_from (Spaces # ?p11) (w2 @ ?t11) = Some [d2, d3]"
    by (rule rx_spaces_greedy[OF w(2) _ e11]) (simp add: nsp)
  have e13: "rx_from (Digits # Spaces # ?p11) (d1 @ w2 @ ?t11) = Some [d1, d2, d3]"
    by (rule rx_digits_greedy[OF d(1) blank_no_digit[OF w(2)] e12]) (simp add: ndg)
  let ?t13 = "d1 @ w2 @ ?t11"
  let ?p13 = "Digits # Spaces # ?p11"
  have e14: "rx_from (Spaces # ?p13) (w1 @ ?t13) = Some [d1, d2, d3]"
    by (rule rx_spaces_greedy[OF w(1) number_no_space[OF d(1)] e13])
  have e15: "rx_from (Lit ''TIMESTAMP_MS:'' # Spaces # ?p13) (''TIMESTAMP_MS:'' @ w1 @ ?t13) =
      Some [d1, d2, d3]"
    using e14 by simp
  then show ?thesis by (simp add: combined_pattern_def)
qed


lemma combined_from_other_start: "CHR ''T'' \<noteq> c \<Longrightarrow> rx_from combined_pattern (c # t) = None"
  by (auto simp add: combined_pattern_def)

lemma combined_search_skip:
  "CHR ''T'' \<notin> set pre \<Longrightarrow> t \<noteq> [] \<Longrightarrow>
   rx_search combined_pattern (pre @ t) = rx_search combined_pattern t"
  by (induction pre) (simp_all add: combined_from_other_start)

lemma strip_middle:
  assumes "x \<noteq> []" and "\<not> is_space (hd x)" and "\<not> is_space (last x)"
  shows "strip (pre @ x @ rest) =
     dropWhile is_space pre @ x @ rev (dropWhile is_space (rev rest))"
proof -
  have a: "dropWhile is_space (x @ rest) = x @ rest"
    using assms(1,2) by (cases x) auto
  have b: "dropWhile is_space (pre @ x @ rest) = dropWhile is_space pre @ x @ rest"
    using a by (simp add: dropWhile_append)
  have c: "dropWhile is_space (rev x @ rev (dropWhile is_space pre)) =
      rev x @ rev (dropWhile is_space pre)"
    using assms(1,3) by (cases "rev x") (auto simp add: hd_rev)
  have "dropWhile is_space (rev rest @ rev x @ rev (dropWhile is_space pre)) =
      dropWhile is_space (rev rest) @ rev x @ rev (dropWhile is_space pre)"
    using c by (simp add: dropWhile_append)
  then show ?thesis by (simp add: strip_def b)
qed

lemma rstrip_no_digit:
  assumes "rest = [] \<or> \<not> is_digit (hd rest)"
  shows "takeWhile is_digit (rev (dropWhile is_space (rev rest))) = []"
proof (cases "rev (dropWhile is_space (rev rest)) = []")
  case True
  show ?thesis by (simp only: True takeWhile.simps)
next
  case False
  have "rev (takeWhile is_space (rev rest) @ dropWhile is_space (rev rest)) = rest"
    by (simp only: takeWhile_dropWhile_id rev_rev_ident)
  then have "rest = rev (dropWhile is_space (rev rest)) @ rev (takeWhile is_space (rev rest))"
    unfolding rev_append by simp
  then have "hd rest = hd (rev (dropWhile is_space (rev rest)))"
    using False by (metis hd_append2)
  moreover have "rest \<noteq> []" using False by auto
  ultimately show ?thesis using assms by (simp add: takeWhile_eq_Nil_iff)
qed

lemma combined_search_shape:
  assumes w: "blank w1" "blank w2" "blank w3" "blank w4" "blank w5" "blank w6" "blank w7"
    and d: "number d1" "number d2" "number d3"
    and p: "CHR ''T'' \<notin> set pre"
    and r: "rest = [] \<or> \<not> is_digit (hd rest)"
  shows "rx_search combined_pattern
     (strip (pre @ ''TIMESTAMP_MS:'' @ w1 @ d1 @ w2 @ ''|'' @ w3 @ ''HR:'' @ w4 @ d2 @ w5 @ ''|'' @
        w6 @ ''SpO2:'' @ w7 @ d3 @ rest)) = Some [d1, d2, d3]"
proof -
  let ?m = "w1 @ d1 @ w2 @ ''|'' @ w3 @ ''HR:'' @ w4 @ d2 @ w5 @ ''|'' @ w6 @ ''SpO2:'' @ w7"
  let ?x = "''TIMESTAMP_MS:'' @ ?m @ d3"
  let ?rest' = "rev (dropWhile is_space (rev rest))"
  from d(3) have d3n: "d3 \<noteq> []" and d3d: "\<forall>c\<in>set d3. is_digit c"
    by (simp_all add: number_def list_all_iff)
  from d3n d3d have "is_digit (last d3)" by simp
  with d3n have d3: "d3 \<noteq> []" "\<not> is_space (last d3)"
    using space_not_digit by blast+
  have x: "?x \<noteq> []" "\<not> is_space (hd ?x)" "\<not> is_space (last ?x)"
    using d3 by (simp_all add: is_space_def)
  have "strip (pre @ ?x @ rest) = dropWhile is_space pre @ ?x @ ?rest'"
    by (rule strip_middle[OF x])
  moreover have "CHR ''T'' \<notin> set (dropWhile is_space pre)"
    using p set_dropWhileD by fastforce
  moreover have "rx_from combined_pattern (?x @ ?rest') = Some [d1, d2, d3]"
    using combined_from[OF w d rstrip_no_digit[OF r]] by simp
  ultimately show ?thesis
    using combined_search_skip[of "dropWhile is_space pre" "?x @ ?rest'"] rx_from_search
    by simp
qed

lemma process_line_on_match:
  assumes "rx_search combined_pattern (strip line) = Some g"
    and "csv_file s = Some p"
    and "files s p = Some rows"
  shows "\<exists>s'. process_line s now system_time line = (None, s') \<and>
           files s' = (files s)(p \<mapsto> rows @
             [[Text system_time, Number (int (dec_value (g ! 0))),
               Number (int (dec_value (g ! 1))), Number (int (dec_value (g ! 2)))]])"
  using assms by (auto simp add: process_line_def Let_def writerow_files)

text \<open>
  Claim C2. A line holds the three tagged fields in order: \<^verbatim>\<open>TIMESTAMP_MS:\<close>, the
  digits \<open>d1\<close>, \<^verbatim>\<open>|\<close>, \<^verbatim>\<open>HR:\<close>, the digits \<open>d2\<close>, \<^verbatim>\<open>|\<close>, \<^verbatim>\<open>SpO2:\<close>, the
  digits \<open>d3\<close>, with any amount of whitespace (\<open>w1\<close> to \<open>w7\<close>, possibly none) after
  each tag and on both sides of each \<^verbatim>\<open>|\<close>. Before it may stand any text without
  the letter \<^verbatim>\<open>T\<close> and after it any text that does not go on with a digit (leading
  whitespace and the line terminator in particular). Then the search finds exactly the
  groups \<open>d1\<close>, \<open>d2\<close>, \<open>d3\<close>, and \<open>process_line\<close>, with the sensor log open, raises
  nothing and appends to it one row: the system time and the values of \<open>d1\<close>, \<open>d2\<close>
  and \<open>d3\<close>, in that order. No other file changes. For
  \<^verbatim>\<open>TIMESTAMP_MS: 1500 | HR: 72 | SpO2: 98\<close> the row holds 1500, 72 and 98.
\<close>

theorem telemetry_line_logged:
  assumes "blank w1" "blank w2" "blank w3" "blank w4" "blank w5" "blank w6" "blank w7"
    and "number d1" "number d2" "number d3"
    and "CHR ''T'' \<notin> set pre"
    and "rest = [] \<or> \<not> is_digit (hd rest)"
    and "csv_file s = Some p"
    and "files s p = Some rows"
  shows "rx_search combined_pattern
           (strip (pre @ ''TIMESTAMP_MS:'' @ w1 @ d1 @ w2 @ ''|'' @ w3 @ ''HR:'' @ w4 @ d2 @ w5 @
              ''|'' @ w6 @ ''SpO2:'' @ w7 @ d3 @ rest)) = Some [d1, d2, d3] \<and>
         (\<exists>s'. process_line s now system_time
                 (pre @ ''TIMESTAMP_MS:'' @ w1 @ d1 @ w2 @ ''|'' @ w3 @ ''HR:'' @ w4 @ d2 @ w5 @
                    ''|'' @ w6 @ ''SpO2:'' @ w7 @ d3 @ rest) = (None, s') \<and>
               files s' = (files s)(p \<mapsto> rows @
                 [[Text system_time, Number (int (dec_value d1)), Number (int (dec_value d2)),
                   Number (int (dec_value d3))]]))"
proof -
  let ?line = "pre @ ''TIMESTAMP_MS:'' @ w1 @ d1 @ w2 @ ''|'' @ w3 @ ''HR:'' @ w4 @ d2 @ w5 @
      ''|'' @ w6 @ ''SpO2:'' @ w7 @ d3 @ rest"
  have m: "rx_search combined_pattern (strip ?line) = Some [d1, d2, d3]"
    by (rule combined_search_shape[OF assms(1-12)])
  have "\<exists>s'. process_line s now system_time ?line = (None, s') \<and>
      files s' = (files s)(p \<mapsto> rows @
        [[Text system_time, Number (int (dec_value d1)), Number (int (dec_value d2)),
          Number (int (dec_value d3))]])"
    using process_line_on_match[OF m assms(13,14), of now system_time] by simp
  with m show ?thesis by blast
qed


theorem telemetry_line_logged_witness:
  "\<exists>s'. process_line (run_opened demo_csv False Map.empty 100) 101 ''2025-03-01 10:00:01.000''
          (''TIMESTAMP_MS: 1500 | HR: 72 | SpO2: 98'' @ [CHR 0x0D, CHR 0x0A]) = (None, s') \<and>
        files s' = [demo_csv \<mapsto> [sensor_header,
          [Text ''2025-03-01 10:00:01.000'', Number 1500, Number 72, Number 98]]]"
proof -
  have w: "blank '' ''" by (simp add: blank_def is_space_def)
  have d: "number ''1500''" "number ''72''" "number ''98''"
    by (simp_all add: number_def is_digit_def)
  have p: "CHR ''T'' \<notin> set []" by simp
  have r: "[CHR 0x0D, CHR 0x0A] = [] \<or> \<not> is_digit (hd [CHR 0x0D, CHR 0x0A])"
    by (simp add: is_digit_def)
  have c: "csv_file (run_opened demo_csv False Map.empty 100) = Some demo_csv"
    by (simp add: run_opened_simps)
  have f: "files (run_opened demo_csv False Map.empty 100) demo_csv = Some [sensor_header]"
    by (simp add: run_opened_new_files)
  have v: "dec_value ''1500'' = 1500" "dec_value ''72'' = 72" "dec_value ''98'' = 98"
    by (simp_all add: dec_value_def digit_val_def)
  from telemetry_line_logged[OF w w w w w w w d p r c f, of 101 "''2025-03-01 10:00:01.000''"] v
  show ?thesis by (simp add: run_opened_new_files)
qed

section \<open>The fields of operator input\<close>

lemma word_then:
  assumes "word t" and "u = [] \<or> is_space (hd u)"
  shows "takeWhile (\<lambda>c. \<not> is_space c) (t @ u) = t"
    and "dropWhile (\<lambda>c. \<not> is_space c) (t @ u) = u"
    and "dropWhile is_space (t @ u) = t @ u"
proof -
  from assms(1) have a: "\<forall>c\<in>set t. \<not> is_space c" and n: "t \<noteq> []"
    by (simp_all add: word_def list_all_iff)
  from assms(2) have u: "takeWhile (\<lambda>c. \<not> is_space c) u = []" "dropWhile (\<lambda>c. \<not> is_space c) u = u"
    by (cases u; simp)+
  show "takeWhile (\<lambda>c. \<not> is_space c) (t @ u) = t" using a u by simp
  show "dropWhile (\<lambda>c. \<not> is_space c) (t @ u) = u" using a u by simp
  show "dropWhile is_space (t @ u) = t @ u" using a n by (cases t) simp_all
qed

lemma blank_then:
  assumes "blank w" and "u = [] \<or> \<not> is_space (hd u)"
  shows "dropWhile is_space (w @ u) = u"
proof -
  from assms(1) have a: "\<forall>c\<in>set w. is_space c" by (simp add: blank_def list_all_iff)
  from assms(2) have "dropWhile is_space u = u" by (cases u) auto
  with a show ?thesis by simp
qed

lemma blank_hd: "blank w \<Longrightarrow> w \<noteq> [] \<Longrightarrow> (w @ u = [] \<or> is_space (hd (w @ u)))"
  by (cases w) (simp_all add: blank_def)

lemma word_hd: "word t \<Longrightarrow> (t @ u = [] \<or> \<not> is_space (hd (t @ u)))"
  by (cases t) (simp_all add: word_def)

lemma word_alone:
  assumes "word t"
  shows "takeWhile (\<lambda>c. \<not> is_space c) t = t"
    and "dropWhile (\<lambda>c. \<not> is_space c) t = []"
    and "dropWhile is_space t = t"
    and "t \<noteq> []"
  using word_then[OF assms, of "[]"] assms by (simp_all add: word_def)

lemma split_one:
  assumes "word t0"
  shows "split_ws 2 t0 = [t0]"
  by (simp add: numeral_2_eq_2 Let_def word_alone[OF assms])

lemma split_two:
  assumes "word t0" "blank w1" "w1 \<noteq> []" "word t1"
  shows "split_ws 2 (t0 @ w1 @ t1) = [t0, t1]"
proof -
  have a: "w1 @ t1 = [] \<or> is_space (hd (w1 @ t1))" by (rule blank_hd[OF assms(2,3)])
  have b: "dropWhile is_space (w1 @ t1) = t1"
    using blank_then[OF assms(2), of t1] word_hd[OF assms(4), of "[]"] by simp
  have n: "t0 @ w1 @ t1 \<noteq> []" using assms(3) by simp
  show ?thesis
    by (simp add: numeral_2_eq_2 Let_def word_then[OF assms(1) a] word_alone[OF assms(4)] b n
        del: append_is_Nil_conv)
qed

lemma split_three:
  assumes "word t0" "blank w1" "w1 \<noteq> []" "word t1" "blank w2" "w2 \<noteq> []" "trimmed r"
  shows "split_ws 2 (t0 @ w1 @ t1 @ w2 @ r) = [t0, t1, r]"
proof -
  have r: "r \<noteq> []" "r = [] \<or> \<not> is_space (hd r)" using assms(7) by (simp_all add: trimmed_def)
  have a: "w1 @ t1 @ w2 @ r = [] \<or> is_space (hd (w1 @ t1 @ w2 @ r))"
    by (rule blank_hd[OF assms(2,3)])
  have a2: "w2 @ r = [] \<or> is_space (hd (w2 @ r))" by (rule blank_hd[OF assms(5,6)])
  have b: "dropWhile is_space (w1 @ t1 @ w2 @ r) = t1 @ w2 @ r"
    using blank_then[OF assms(2), of "t1 @ w2 @ r"] word_hd[OF assms(4), of "w2 @ r"] by simp
  have b2: "dropWhile is_space (w2 @ r) = r"
    using blank_then[OF assms(5) r(2)] .
  have n: "t0 @ w1 @ t1 @ w2 @ r \<noteq> []" "t1 @ w2 @ r \<noteq> []" using r(1) by simp_all
  show ?thesis
    by (simp add: numeral_2_eq_2 Let_def word_then[OF assms(1) a] word_then[OF assms(4) a2]
        b b2 n r(1) del: append_is_Nil_conv)
qed

lemma split_ws_length: "length (split_ws n s) \<le> Suc n"
  by (induction n arbitrary: s) (simp_all add: Let_def)

lemma strip_padded:
  assumes "blank lead" "blank trail" "trimmed x"
  shows "strip (lead @ x @ trail) = x"
proof -
  from assms(1,2) have e: "dropWhile is_space lead = []" "dropWhile is_space (rev trail) = []"
    by (simp_all add: blank_def list_all_iff)
  from assms(3) have "strip (lead @ x @ trail) =
      dropWhile is_space lead @ x @ rev (dropWhile is_space (rev trail))"
    by (intro strip_middle) (simp_all add: trimmed_def)
  then show ?thesis by (simp only: e rev.simps append_Nil append_Nil2)
qed


lemma word_trimmed: "word t \<Longrightarrow> trimmed t"
proof -
  assume w: "word t"
  then have n: "t \<noteq> []" and a: "\<forall>c\<in>set t. \<not> is_space c"
    by (simp_all add: word_def list_all_iff)
  from n a have "\<not> is_space (hd t)" "\<not> is_space (last t)" by simp_all
  with n show ?thesis by (simp add: trimmed_def)
qed

lemma trimmed_between: "word t \<Longrightarrow> trimmed r \<Longrightarrow> trimmed (t @ m @ r)"
  using word_trimmed[of t] by (simp add: trimmed_def)

lemma manual_input_step_parts:
  assumes "strip raw \<noteq> []"
    and "split_ws 2 (strip raw) = p0 # ps"
    and "py_int p0 = Some v"
  shows "manual_input_step s now st (Entered raw) =
     Inr (Continue, log_manual_heart_rate s now st v
        (if ps \<noteq> [] then hd ps else ''External'')
        (if length ps > 1 then ps ! 1 else []))"
  using assms by (cases ps) (simp_all add: manual_input_step_def)

lemma log_manual_heart_rate_row:
  assumes "manual_csv_file s = Some p" and "files s p = Some rows"
  shows "\<exists>ts. files (log_manual_heart_rate s now st v dev notes) p =
     Some (rows @ [[Text st, Number ts, Number v, Text dev, Text notes]])"
  using assms
  by (cases "connection_start_time s")
    (simp_all add: log_manual_heart_rate_def estimate_arduino_timestamp_def writerow_files)

text \<open>
  Claim C7. The fields of a line of operator input: \<^verbatim>\<open>split(maxsplit=2)\<close> yields
  at most three. Let the line, whitespace before and after it aside, begin with a field
  \<open>hr\<close> that \<^verbatim>\<open>int()\<close> reads as \<open>v\<close>. If that is all, the reading is logged with
  the device \<^verbatim>\<open>External\<close> and empty notes. If a second field \<open>dev\<close> follows, it is
  the device, and the notes are empty. If more text follows the second field, the notes
  are all of it, from its first character that is not whitespace to its last, inner
  whitespace included. The row that \<open>log_manual_heart_rate\<close> writes holds the heart
  rate, the device and the notes it was given, in the third, fourth and fifth column.
\<close>

theorem operator_line_fields:
  assumes "blank lead" and "blank trail"
    and "word hr" and "py_int hr = Some v"
    and "blank w1" and "w1 \<noteq> []" and "word dev"
    and "blank w2" and "w2 \<noteq> []" and "trimmed notes"
  shows "length (split_ws 2 (strip raw)) \<le> 3 \<and>
     manual_input_step s now st (Entered (lead @ hr @ trail)) =
       Inr (Continue, log_manual_heart_rate s now st v ''External'' []) \<and>
     manual_input_step s now st (Entered (lead @ (hr @ w1 @ dev) @ trail)) =
       Inr (Continue, log_manual_heart_rate s now st v dev []) \<and>
     manual_input_step s now st (Entered (lead @ (hr @ w1 @ dev @ w2 @ notes) @ trail)) =
       Inr (Continue, log_manual_heart_rate s now st v dev notes) \<and>
     (\<forall>p rows. manual_csv_file s = Some p \<longrightarrow> files s p = Some rows \<longrightarrow>
        (\<exists>ts. files (log_manual_heart_rate s now st v' dev' notes') p =
           Some (rows @ [[Text st, Number ts, Number v', Text dev', Text notes']])))"
proof -
  have len: "length (split_ws 2 (strip raw)) \<le> 3"
    using split_ws_length[of 2 "strip raw"] by simp
  have s1: "strip (lead @ hr @ trail) = hr"
    by (rule strip_padded[OF assms(1,2) word_trimmed[OF assms(3)]])
  have s2: "strip (lead @ (hr @ w1 @ dev) @ trail) = hr @ w1 @ dev"
    using strip_padded[OF assms(1,2) trimmed_between[OF assms(3) word_trimmed[OF assms(7)]]] .
  have s3: "strip (lead @ (hr @ w1 @ dev @ w2 @ notes) @ trail) = hr @ w1 @ dev @ w2 @ notes"
    using strip_padded[OF assms(1,2) trimmed_between[OF assms(3,10), of "w1 @ dev @ w2"]]
    by simp
  have n: "hr \<noteq> []" using assms(3) by (simp add: word_def)
  have a: "manual_input_step s now st (Entered (lead @ hr @ trail)) =
       Inr (Continue, log_manual_heart_rate s now st v ''External'' [])"
    using manual_input_step_parts[of "lead @ hr @ trail" hr "[]" v s now st]
      split_one[OF assms(3)] assms(4) n
    by (simp only: s1) simp
  have b: "manual_input_step s now st (Entered (lead @ (hr @ w1 @ dev) @ trail)) =
       Inr (Continue, log_manual_heart_rate s now st v dev [])"
    using manual_input_step_parts[of "lead @ (hr @ w1 @ dev) @ trail" hr "[dev]" v s now st]
      split_two[OF assms(3,5,6,7)] assms(4) n
    by (simp only: s2) simp
  have c: "manual_input_step s now st (Entered (lead @ (hr @ w1 @ dev @ w2 @ notes) @ trail)) =
       Inr (Continue, log_manual_heart_rate s now st v dev notes)"
    using manual_input_step_parts[of "lead @ (hr @ w1 @ dev @ w2 @ notes) @ trail" hr
        "[dev, notes]" v s now st]
      split_three[OF assms(3,5,6,7,8,9,10)] assms(4) n
    by (simp only: s3) simp
  from len a b c log_manual_heart_rate_row show ?thesis by blast
qed

theorem operator_line_fields_witness:
  "manual_input_step (run_opened demo_csv True Map.empty 100) 105 ''2025-03-01 10:00:05.000''
     (Entered ''81'') =
     Inr (Continue, log_manual_heart_rate (run_opened demo_csv True Map.empty 100) 105
        ''2025-03-01 10:00:05.000'' 81 ''External'' []) \<and>
   manual_input_step (run_opened demo_csv True Map.empty 100) 105 ''2025-03-01 10:00:05.000''
     (Entered ''81 Polar'') =
     Inr (Continue, log_manual_heart_rate (run_opened demo_csv True Map.empty 100) 105
        ''2025-03-01 10:00:05.000'' 81 ''Polar'' []) \<and>
   manual_input_step (run_opened demo_csv True Map.empty 100) 105 ''2025-03-01 10:00:05.000''
     (Entered ''81 Polar  after a run'') =
     Inr (Continue, log_manual_heart_rate (run_opened demo_csv True Map.empty 100) 105
        ''2025-03-01 10:00:05.000'' 81 ''Polar'' ''after a run'') \<and>
   (\<exists>ts. files (log_manual_heart_rate (run_opened demo_csv True Map.empty 100) 105
        ''2025-03-01 10:00:05.000'' 81 ''Polar'' []) (manual_path demo_csv) =
      Some [manual_header,
        [Text ''2025-03-01 10:00:05.000'', Number ts, Number 81, Text ''Polar'', Text []]])"
proof -
  have b0: "blank []" by (simp add: blank_def)
  have h: "word ''81''" "word ''Polar''" by (simp_all add: word_def is_space_def)
  have i: "py_int ''81'' = Some 81" by code_simp
  have w1: "blank '' ''" "'' '' \<noteq> []" by (simp_all add: blank_def is_space_def)
  have w2: "blank ''  ''" "''  '' \<noteq> []" by (simp_all add: blank_def is_space_def)
  have t: "trimmed ''after a run''" by (simp add: trimmed_def is_space_def)
  have m: "manual_csv_file (run_opened demo_csv True Map.empty 100) = Some (manual_path demo_csv)"
    by (simp add: run_opened_simps)
  have f: "files (run_opened demo_csv True Map.empty 100) (manual_path demo_csv) =
      Some [manual_header]"
    by (rule run_opened_new_manual_files)
  from operator_line_fields[OF b0 b0 h(1) i w1 h(2) w2 t,
      of "[]" "run_opened demo_csv True Map.empty 100" 105 "''2025-03-01 10:00:05.000''"
        81 "''Polar''" "[]"] m f
  show ?thesis by simp
qed


section \<open>Headers and appended records\<close>

lemma open_csv_result:
  assumes "open_csv s openable = (True, s')"
  shows "csv_file s' = Some (output_file s)"
    and "files s' (output_file s) =
      Some (case files s (output_file s) of None \<Rightarrow> [sensor_header] | Some rows \<Rightarrow> rows)"
    and "enable_manual_input s \<Longrightarrow> manual_csv_file s' = Some (manual_path (output_file s))"
    and "enable_manual_input s \<Longrightarrow> files s' (manual_path (output_file s)) =
      Some (case files s (manual_path (output_file s)) of
              None \<Rightarrow> [manual_header] | Some rows \<Rightarrow> rows)"
  using assms
  by (auto simp add: open_csv_def Let_def open_append_def writerow_files split: if_splits)

lemma process_line_appends:
  assumes "csv_file s = Some p" and "files s p = Some old"
  shows "\<exists>s'. process_line s now st line = (None, s') \<and> csv_file s' = Some p \<and>
           files s' p = Some (old @ telemetry_rows (now, st, line))"
  using assms
  by (auto simp add: process_line_def Let_def writerow_files telemetry_rows_def split: option.splits)

lemma process_lines_appends:
  assumes "csv_file s = Some p" and "files s p = Some old"
  shows "\<exists>s'. process_lines s ls = (None, s') \<and>
           files s' p = Some (old @ concat (map telemetry_rows ls))"
  using assms
proof (induction ls arbitrary: s old)
  case Nil
  then show ?case by simp
next
  case (Cons x ls)
  obtain now st line where x: "x = (now, st, line)" by (cases x)
  from process_line_appends[OF Cons.prems, of now st line]
  obtain s1 where s1: "process_line s now st line = (None, s1)" "csv_file s1 = Some p"
    "files s1 p = Some (old @ telemetry_rows (now, st, line))" by blast
  from Cons.IH[OF s1(2,3)] s1(1) x show ?case by simp
qed

lemma log_manual_appends:
  assumes "manual_csv_file s = Some p" and "files s p = Some old"
    and "connection_start_time s = Some a"
  shows "files (log_manual_heart_rate s now st hr dev notes) p =
     Some (old @ [manual_row a (now, st, hr, dev, notes)])"
  using assms by (simp add: log_manual_heart_rate_synced writerow_files manual_row_def)

lemma log_manual_readings_appends:
  assumes "manual_csv_file s = Some p" and "files s p = Some old"
    and "connection_start_time s = Some a"
  shows "files (log_manual_readings s es) p = Some (old @ map (manual_row a) es)"
  using assms
proof (induction es arbitrary: s old)
  case Nil
  then show ?case by simp
next
  case (Cons x es)
  obtain now st hr dev nts where x: "x = (now, st, hr, dev, nts)" by (cases x)
  let ?s1 = "log_manual_heart_rate s now st hr dev nts"
  have "manual_csv_file ?s1 = Some p" "connection_start_time ?s1 = Some a"
    using Cons.prems by (simp_all add: log_manual_manual_csv_file log_manual_anchor)
  from Cons.IH[OF this(1) log_manual_appends[OF Cons.prems] this(2)] x
  show ?case by simp
qed

lemma header_not_in_new_rows:
  "sensor_header \<notin> set (concat (map telemetry_rows ls))"
  "manual_header \<notin> set (map (manual_row a) es)"
  by (auto simp add: telemetry_rows_def manual_row_def sensor_header_def manual_header_def
      split: option.splits)


lemma telemetry_rows_count:
  "list_all (\<lambda>x. telemetry_rows x \<noteq> []) ls \<Longrightarrow> length (concat (map telemetry_rows ls)) = length ls"
proof (induction ls)
  case Nil
  then show ?case by simp
next
  case (Cons x ls)
  obtain now st line where x: "x = (now, st, line)" by (cases x)
  from Cons.prems have "length (telemetry_rows x) = 1"
    by (simp add: x telemetry_rows_def split: option.splits)
  with Cons show ?case by simp
qed

lemma scenario_A_line:
  "rx_search combined_pattern (strip ''TIMESTAMP_MS: 1500 | HR: 72 | SpO2: 98'') =
     Some [''1500'', ''72'', ''98'']"
  "rx_search connection_pattern (strip ''TIMESTAMP_MS: 1500 | HR: 72 | SpO2: 98'') = None"
  "dec_value ''1500'' = 1500" "dec_value ''72'' = 72" "dec_value ''98'' = 98"
  by code_simp+

text \<open>
  Claim C3 says that every physical log file gets its header row exactly once. A
  sensor log that exists and is empty when it is opened gets none: after the open the
  file is still empty, and after one telemetry line it holds that one record and no
  header.
\<close>

theorem existing_empty_log_gets_no_header:
  "files (run_opened demo_csv False [demo_csv \<mapsto> []] 100) demo_csv = Some [] \<and>
   files (snd (process_lines (run_opened demo_csv False [demo_csv \<mapsto> []] 100)
      [(101, ''2025-03-01 10:00:01.000'', ''TIMESTAMP_MS: 1500 | HR: 72 | SpO2: 98'')]))
     demo_csv =
     Some [[Text ''2025-03-01 10:00:01.000'', Number 1500, Number 72, Number 98]]"
proof -
  have a: "files (run_opened demo_csv False [demo_csv \<mapsto> []] 100) demo_csv = Some []"
    by (simp add: run_opened_def open_csv_def open_serial_def init_def Let_def open_append_def)
  have c: "csv_file (run_opened demo_csv False [demo_csv \<mapsto> []] 100) = Some demo_csv"
    by (simp add: run_opened_simps)
  from process_lines_appends[OF c a,
      of "[(101, ''2025-03-01 10:00:01.000'', ''TIMESTAMP_MS: 1500 | HR: 72 | SpO2: 98'')]"]
  have "files (snd (process_lines (run_opened demo_csv False [demo_csv \<mapsto> []] 100)
      [(101, ''2025-03-01 10:00:01.000'', ''TIMESTAMP_MS: 1500 | HR: 72 | SpO2: 98'')]))
     demo_csv =
     Some [[Text ''2025-03-01 10:00:01.000'', Number 1500, Number 72, Number 98]]"
    by (auto simp add: telemetry_rows_def scenario_A_line)
  with a show ?thesis by blast
qed

text \<open>
  Claim C3 as amended. When the logs are opened, a log whose path does not exist yet
  is created with its header row, and a log whose path exists keeps its content as it
  is: no header is written, whatever the file holds. If the sensor log held its header
  and the records \<open>recs\<close>, then after processing the lines \<open>ls\<close> it holds the
  header, \<open>recs\<close>, and the rows of the lines of \<open>ls\<close> that are telemetry, in
  order; none of these rows is a header, and when every line of \<open>ls\<close> is telemetry
  there are as many as lines. The same holds for the manual log and the readings
  \<open>es\<close> logged after the open.
\<close>

theorem header_written_when_file_is_new:
  assumes "open_csv s openable = (True, s')"
  shows "files s' (output_file s) =
       Some (case files s (output_file s) of None \<Rightarrow> [sensor_header] | Some rows \<Rightarrow> rows) \<and>
     (enable_manual_input s \<longrightarrow>
        files s' (manual_path (output_file s)) =
          Some (case files s (manual_path (output_file s)) of
                  None \<Rightarrow> [manual_header] | Some rows \<Rightarrow> rows)) \<and>
     (\<forall>recs. files s (output_file s) = Some (sensor_header # recs) \<longrightarrow>
        (\<exists>s''. process_lines s' ls = (None, s'') \<and>
           files s'' (output_file s) =
             Some (sensor_header # recs @ concat (map telemetry_rows ls)))) \<and>
     sensor_header \<notin> set (concat (map telemetry_rows ls)) \<and>
     (list_all (\<lambda>x. telemetry_rows x \<noteq> []) ls \<longrightarrow>
        length (concat (map telemetry_rows ls)) = length ls) \<and>
     (\<forall>recs a. enable_manual_input s \<longrightarrow>
        files s (manual_path (output_file s)) = Some (manual_header # recs) \<longrightarrow>
        connection_start_time s = Some a \<longrightarrow>
        files (log_manual_readings s' es) (manual_path (output_file s)) =
          Some (manual_header # recs @ map (manual_row a) es)) \<and>
     manual_header \<notin> set (map (manual_row a) es)"
proof -
  note r = open_csv_result[OF assms]
  have sensor: "\<exists>s''. process_lines s' ls = (None, s'') \<and>
      files s'' (output_file s) = Some (sensor_header # recs @ concat (map telemetry_rows ls))"
    if "files s (output_file s) = Some (sensor_header # recs)" for recs
    using process_lines_appends[OF r(1), of "sensor_header # recs" ls] r(2) that by simp
  have manual: "files (log_manual_readings s' es) (manual_path (output_file s)) =
      Some (manual_header # recs @ map (manual_row a) es)"
    if "enable_manual_input s" "files s (manual_path (output_file s)) = Some (manual_header # recs)"
      "connection_start_time s = Some a" for recs a
  proof -
    have "connection_start_time s' = Some a" using open_csv_anchor[OF assms] that(3) by simp
    with log_manual_readings_appends[OF r(3)[OF that(1)], of "manual_header # recs" a es]
      r(4)[OF that(1)] that(2)
    show ?thesis by simp
  qed
  from r(2) r(4) sensor manual header_not_in_new_rows telemetry_rows_count
  show ?thesis by blast
qed


theorem header_written_when_file_is_new_witness:
  "files (run_opened demo_csv True demo_disk 100) demo_csv =
     Some [sensor_header, [Text ''2025-02-28 09:00:01.000'', Number 1000, Number 70, Number 97]] \<and>
   (\<exists>s''. process_lines (run_opened demo_csv True demo_disk 100)
        [(101, ''2025-03-01 10:00:01.000'', ''TIMESTAMP_MS: 1500 | HR: 72 | SpO2: 98'')] =
        (None, s'') \<and>
      files s'' demo_csv =
        Some [sensor_header,
          [Text ''2025-02-28 09:00:01.000'', Number 1000, Number 70, Number 97],
          [Text ''2025-03-01 10:00:01.000'', Number 1500, Number 72, Number 98]]) \<and>
   files (log_manual_readings (run_opened demo_csv True demo_disk 100)
        [(105, ''2025-03-01 10:00:05.000'', 81, ''Polar'', [])]) (manual_path demo_csv) =
     Some [manual_header,
       [Text ''2025-02-28 09:00:05.000'', Number 5000, Number 75, Text ''Polar'', Text []],
       [Text ''2025-03-01 10:00:05.000'', Number 5000, Number 81, Text ''Polar'', Text []]]"
proof -
  let ?s = "snd (open_serial (init demo_csv True demo_disk) True 100)"
  have o: "open_csv ?s (\<lambda>p. True) = (True, run_opened demo_csv True demo_disk 100)"
    by (rule run_opened_steps(2))
  have f: "output_file ?s = demo_csv" "enable_manual_input ?s"
    "connection_start_time ?s = Some 100"
    "files ?s demo_csv =
       Some [sensor_header, [Text ''2025-02-28 09:00:01.000'', Number 1000, Number 70, Number 97]]"
    "files ?s (manual_path demo_csv) =
       Some [manual_header,
         [Text ''2025-02-28 09:00:05.000'', Number 5000, Number 75, Text ''Polar'', Text []]]"
    by (simp_all add: open_serial_def init_def demo_disk_def Let_def)
  have t: "telemetry_rows (101, ''2025-03-01 10:00:01.000'', ''TIMESTAMP_MS: 1500 | HR: 72 | SpO2: 98'') =
      [[Text ''2025-03-01 10:00:01.000'', Number 1500, Number 72, Number 98]]"
    by (simp add: telemetry_rows_def scenario_A_line)
  have m: "manual_row 100 (105, ''2025-03-01 10:00:05.000'', 81, ''Polar'', []) =
      [Text ''2025-03-01 10:00:05.000'', Number 5000, Number 81, Text ''Polar'', Text []]"
    by (simp add: manual_row_def int_of_float_def)
  from header_written_when_file_is_new[OF o,
      where ls = "[(101, ''2025-03-01 10:00:01.000'', ''TIMESTAMP_MS: 1500 | HR: 72 | SpO2: 98'')]"
        and es = "[(105, ''2025-03-01 10:00:05.000'', 81, ''Polar'', [])]"]
  show ?thesis by (simp add: f t m)
qed


end
